theory Spec2Isabelle
  imports Complex_Main
begin

section \<open>Characters and the string methods of Python used by \<open>app/ocr.py\<close>\<close>

text \<open>
  A Python \<open>str\<close> is modelled as a HOL \<open>string\<close>: each \<open>char\<close> stands for one code
  point in the range 0..255, so \<open>length\<close> is Python's \<open>len\<close>. The character classes below
  are the ones Python uses for \<open>str\<close> patterns (Unicode mode) restricted to that range.
\<close>

abbreviation LF :: char where "LF \<equiv> CHR 0x0A"
abbreviation CR :: char where "CR \<equiv> CHR 0x0D"
abbreviation TAB :: char where "TAB \<equiv> CHR 0x09"
abbreviation SP :: char where "SP \<equiv> CHR 0x20"

definition cp :: "char \<Rightarrow> nat" where
  "cp c = of_char c"

text \<open>\<open>str.isspace\<close>, which is also the class \<open>\s\<close>.\<close>

definition py_isspace :: "char \<Rightarrow> bool" where
  "py_isspace c = ((9 \<le> cp c \<and> cp c \<le> 13) \<or> (28 \<le> cp c \<and> cp c \<le> 32) \<or> cp c = 133 \<or> cp c = 160)"

text \<open>The class \<open>\d\<close> (decimal digits) and its complement \<open>\D\<close>.\<close>

definition py_isdigit :: "char \<Rightarrow> bool" where
  "py_isdigit c = (48 \<le> cp c \<and> cp c \<le> 57)"

text \<open>The class \<open>\w\<close>: alphanumeric code points and the underscore.\<close>

definition py_isword :: "char \<Rightarrow> bool" where
  "py_isword c =
     (py_isdigit c \<or> (65 \<le> cp c \<and> cp c \<le> 90) \<or> (97 \<le> cp c \<and> cp c \<le> 122) \<or> cp c = 95
      \<or> cp c \<in> {170, 178, 179, 181, 185, 186, 188, 189, 190}
      \<or> (192 \<le> cp c \<and> cp c \<noteq> 215 \<and> cp c \<noteq> 247))"

text \<open>\<open>str.lower\<close> on one code point; \<open>re.IGNORECASE\<close> compares lowered code points.\<close>

definition py_lower :: "char \<Rightarrow> char" where
  "py_lower c =
     (if (65 \<le> cp c \<and> cp c \<le> 90) \<or> (192 \<le> cp c \<and> cp c \<le> 222 \<and> cp c \<noteq> 215)
      then char_of (cp c + 32) else c)"

definition ci_eq :: "char \<Rightarrow> char \<Rightarrow> bool" where
  "ci_eq p c = (py_lower c = py_lower p)"

text \<open>\<open>s.strip(chars)\<close> for a set of characters, and \<open>s.strip()\<close>.\<close>

definition strip_chars :: "(char \<Rightarrow> bool) \<Rightarrow> string \<Rightarrow> string" where
  "strip_chars P s = rev (dropWhile P (rev (dropWhile P s)))"

definition py_strip :: "string \<Rightarrow> string" where
  "py_strip s = strip_chars py_isspace s"

text \<open>\<open>s.replace(a, b)\<close> for single characters \<open>a\<close> and \<open>b\<close>.\<close>

definition replace_char :: "char \<Rightarrow> char \<Rightarrow> string \<Rightarrow> string" where
  "replace_char a b s = map (\<lambda>c. if c = a then b else c) s"

section \<open>The regular expressions of the \<open>re\<close> module\<close>

text \<open>
  Patterns are abstract syntax; the matcher is a backtracking matcher in continuation
  style, which tries alternatives in the order \<open>re\<close> does (left alternative first, greedy
  repetition longest first, lazy repetition shortest first) and stops at the first
  success. A matcher state is the character before the current position (for \<open>^\<close> and
  \<open>\b\<close>), the text still to be read, and the groups captured so far.
\<close>

datatype rx =
    Atom "char \<Rightarrow> bool"
  | Eps
  | Seq rx rx
  | Alt rx rx
  | Rep nat "nat option" rx
  | Lazy nat "nat option" rx
  | Group nat rx
  | Look rx
  | Bos
  | Eos
  | Eol
  | WordB

type_synonym mstate = "char option \<times> string \<times> (nat \<times> string) list"

type_synonym matcher = "(mstate \<Rightarrow> mstate option) \<Rightarrow> mstate \<Rightarrow> mstate option"

definition orelse :: "'a option \<Rightarrow> 'a option \<Rightarrow> 'a option" where
  "orelse a b = (case a of Some x \<Rightarrow> Some x | None \<Rightarrow> b)"

text \<open>
  Greedy and lazy bounded repetition of a matcher \<open>m\<close>: at least \<open>lo\<close> and at most
  \<open>lo + n\<close> iterations.
\<close>

fun rep_greedy :: "matcher \<Rightarrow> nat \<Rightarrow> nat \<Rightarrow> matcher" where
  "rep_greedy m (Suc lo) n k st = m (rep_greedy m lo n k) st"
| "rep_greedy m 0 (Suc n) k st = orelse (m (rep_greedy m 0 n k) st) (k st)"
| "rep_greedy m 0 0 k st = k st"

fun rep_lazy :: "matcher \<Rightarrow> nat \<Rightarrow> nat \<Rightarrow> matcher" where
  "rep_lazy m (Suc lo) n k st = m (rep_lazy m lo n k) st"
| "rep_lazy m 0 (Suc n) k st = orelse (k st) (m (rep_lazy m 0 n k) st)"
| "rep_lazy m 0 0 k st = k st"

text \<open>
  The number of optional iterations: \<open>hi - lo\<close> for \<open>{lo,hi}\<close>; for an open repetition
  (\<open>*\<close>, \<open>+\<close>, \<open>{lo,}\<close>) the length of the remaining text, since every repeated
  sub-pattern of \<open>ocr.py\<close> consumes at least one character per iteration.
\<close>

definition extra_iters :: "nat \<Rightarrow> nat option \<Rightarrow> string \<Rightarrow> nat" where
  "extra_iters lo hi s = (case hi of Some h \<Rightarrow> h - lo | None \<Rightarrow> length s)"

definition at_word_boundary :: "char option \<Rightarrow> string \<Rightarrow> bool" where
  "at_word_boundary prev s =
     ((case prev of None \<Rightarrow> False | Some c \<Rightarrow> py_isword c)
      \<noteq> (case s of [] \<Rightarrow> False | c # _ \<Rightarrow> py_isword c))"

primrec rmatch :: "rx \<Rightarrow> matcher" where
  "rmatch (Atom P) = (\<lambda>k (prev, s, caps).
     (case s of [] \<Rightarrow> None | c # cs \<Rightarrow> if P c then k (Some c, cs, caps) else None))"
| "rmatch Eps = (\<lambda>k st. k st)"
| "rmatch (Seq a b) = (\<lambda>k st. rmatch a (rmatch b k) st)"
| "rmatch (Alt a b) = (\<lambda>k st. orelse (rmatch a k st) (rmatch b k st))"
| "rmatch (Rep lo hi a) = (\<lambda>k (prev, s, caps).
     rep_greedy (rmatch a) lo (extra_iters lo hi s) k (prev, s, caps))"
| "rmatch (Lazy lo hi a) = (\<lambda>k (prev, s, caps).
     rep_lazy (rmatch a) lo (extra_iters lo hi s) k (prev, s, caps))"
| "rmatch (Group n a) = (\<lambda>k (prev, s, caps).
     rmatch a (\<lambda>(prev', s', caps'). k (prev', s', (n, take (length s - length s') s) # caps'))
       (prev, s, caps))"
| "rmatch (Look a) = (\<lambda>k st. (case rmatch a Some st of None \<Rightarrow> None | Some _ \<Rightarrow> k st))"
| "rmatch Bos = (\<lambda>k (prev, s, caps). if prev = None then k (prev, s, caps) else None)"
| "rmatch Eos = (\<lambda>k (prev, s, caps). if s = [] then k (prev, s, caps) else None)"
| "rmatch Eol = (\<lambda>k (prev, s, caps). if s = [] \<or> s = [LF] then k (prev, s, caps) else None)"
| "rmatch WordB = (\<lambda>k (prev, s, caps). if at_word_boundary prev s then k (prev, s, caps) else None)"

text \<open>Pattern syntax: literals, sequences, alternatives and the usual postfix operators.\<close>

definition lit :: "string \<Rightarrow> rx" where
  "lit s = foldr (\<lambda>p r. Seq (Atom (\<lambda>c. c = p)) r) s Eps"

definition lit_ci :: "string \<Rightarrow> rx" where
  "lit_ci s = foldr (\<lambda>p r. Seq (Atom (ci_eq p)) r) s Eps"

definition seqs :: "rx list \<Rightarrow> rx" where
  "seqs rs = foldr Seq rs Eps"

fun alts :: "rx list \<Rightarrow> rx" where
  "alts [] = Eps"
| "alts [r] = r"
| "alts (r # rs) = Alt r (alts rs)"

definition star :: "rx \<Rightarrow> rx" where "star r = Rep 0 None r"
definition plus :: "rx \<Rightarrow> rx" where "plus r = Rep 1 None r"
definition opt :: "rx \<Rightarrow> rx" where "opt r = Rep 0 (Some 1) r"
definition times :: "nat \<Rightarrow> rx \<Rightarrow> rx" where "times n r = Rep n (Some n) r"

definition one_of :: "string \<Rightarrow> rx" where
  "one_of cs = Atom (\<lambda>c. c \<in> set cs)"

definition spaces :: rx where "spaces = star (Atom py_isspace)"
definition digit :: rx where "digit = Atom py_isdigit"

text \<open>
  A match object: where the match starts and ends, and its groups. \<open>re.search\<close> tries
  the start positions from left to right.
\<close>

record match =
  m_start :: nat
  m_end :: nat
  m_groups :: "(nat \<times> string) list"

fun search_from :: "rx \<Rightarrow> nat \<Rightarrow> char option \<Rightarrow> string \<Rightarrow> match option" where
  "search_from r i prev [] =
     (case rmatch r Some (prev, [], []) of
        None \<Rightarrow> None
      | Some (_, _, caps) \<Rightarrow> Some \<lparr>m_start = i, m_end = i, m_groups = caps\<rparr>)"
| "search_from r i prev (c # cs) =
     (case rmatch r Some (prev, c # cs, []) of
        None \<Rightarrow> search_from r (Suc i) (Some c) cs
      | Some (_, s', caps) \<Rightarrow>
          Some \<lparr>m_start = i, m_end = i + (Suc (length cs) - length s'), m_groups = caps\<rparr>)"

definition re_search :: "rx \<Rightarrow> string \<Rightarrow> match option" where
  "re_search r s = search_from r 0 None s"

text \<open>
  \<open>re.sub(pattern, repl, s)\<close> with a constant replacement: the matches are found from
  left to right without overlap; after an empty match the next character is copied.
  (After an empty match \<open>re\<close> looks once more for a non-empty match at the same position;
  no pattern of \<open>ocr.py\<close> has an empty first match where a non-empty one exists, so
  that second look is left out, here and in \<open>findall_from\<close>.)
\<close>

function sub_from :: "rx \<Rightarrow> string \<Rightarrow> char option \<Rightarrow> string \<Rightarrow> string" where
  "sub_from r repl prev s =
     (case rmatch r Some (prev, s, []) of
        None \<Rightarrow> (case s of [] \<Rightarrow> [] | c # cs \<Rightarrow> c # sub_from r repl (Some c) cs)
      | Some (prev', s', _) \<Rightarrow>
          (if length s' < length s
           then repl @ sub_from r repl prev' (drop (length s - length s') s)
           else (case s of [] \<Rightarrow> repl | c # cs \<Rightarrow> repl @ c # sub_from r repl (Some c) cs)))"
  by pat_completeness auto
termination
  by (relation "measure (\<lambda>(r, repl, prev, s). length s)") auto

declare sub_from.simps [simp del]

definition re_sub :: "rx \<Rightarrow> string \<Rightarrow> string \<Rightarrow> string" where
  "re_sub r repl s = sub_from r repl None s"

text \<open>
  \<open>re.findall(pattern, s)\<close> for a pattern without groups: the matched substrings, from
  left to right without overlap.
\<close>

function findall_from :: "rx \<Rightarrow> char option \<Rightarrow> string \<Rightarrow> string list" where
  "findall_from r prev s =
     (case rmatch r Some (prev, s, []) of
        None \<Rightarrow> (case s of [] \<Rightarrow> [] | c # cs \<Rightarrow> findall_from r (Some c) cs)
      | Some (prev', s', _) \<Rightarrow>
          (if length s' < length s
           then take (length s - length s') s # findall_from r prev' (drop (length s - length s') s)
           else (case s of [] \<Rightarrow> [[]] | c # cs \<Rightarrow> [] # findall_from r (Some c) cs)))"
  by pat_completeness auto
termination
  by (relation "measure (\<lambda>(r, prev, s). length s)") auto

declare findall_from.simps [simp del]

definition re_findall :: "rx \<Rightarrow> string \<Rightarrow> string list" where
  "re_findall r s = findall_from r None s"

text \<open>\<open>re.split(pattern, s)[0]\<close>: the text before the first match, or all of it.\<close>

definition re_split0 :: "rx \<Rightarrow> string \<Rightarrow> string" where
  "re_split0 r s = (case re_search r s of None \<Rightarrow> s | Some m \<Rightarrow> take (m_start m) s)"

text \<open>\<open>m.group(n)\<close>: \<open>None\<close> when the group took no part in the match.\<close>

definition match_group :: "match \<Rightarrow> nat \<Rightarrow> string option" where
  "match_group m n = map_of (m_groups m) n"

section \<open>Exceptions and other library functions\<close>

datatype py_error = AttributeError | TypeError | ValueError | ReError

definition ebind :: "py_error + 'a \<Rightarrow> ('a \<Rightarrow> py_error + 'b) \<Rightarrow> py_error + 'b" where
  "ebind x f = (case x of Inl e \<Rightarrow> Inl e | Inr v \<Rightarrow> f v)"

text \<open>Truthiness of an optional string: \<open>None\<close> and \<open>""\<close> are false.\<close>

definition truthy :: "string option \<Rightarrow> bool" where
  "truthy v = (case v of None \<Rightarrow> False | Some s \<Rightarrow> s \<noteq> [])"

text \<open>\<open>int(s)\<close> on a string of decimal digits.\<close>

definition digit_val :: "char \<Rightarrow> nat" where
  "digit_val c = cp c - 48"

definition nat_of_digits :: "string \<Rightarrow> nat" where
  "nat_of_digits ds = foldl (\<lambda>n c. 10 * n + digit_val c) 0 ds"

text \<open>
  \<open>float(s)\<close>, for the decimal literals \<open>digits\<close> and \<open>digits.digits\<close>; the value is the
  decimal number the literal denotes. Any other string is answered with \<open>ValueError\<close>
  (the only call passes a capture of \<open>\d+(?:\.\d{1,2})?\<close>); \<open>float(None)\<close> is a
  \<open>TypeError\<close>.
\<close>

definition py_float :: "string option \<Rightarrow> py_error + rat" where
  "py_float v =
     (case v of
        None \<Rightarrow> Inl TypeError
      | Some s \<Rightarrow>
          (let ip = takeWhile py_isdigit s; rest = dropWhile py_isdigit s in
           if ip = [] then Inl ValueError
           else if rest = [] then Inr (of_nat (nat_of_digits ip))
           else if hd rest = CHR ''.'' \<and> tl rest \<noteq> [] \<and> list_all py_isdigit (tl rest)
             then Inr (of_nat (nat_of_digits ip) + of_nat (nat_of_digits (tl rest)) / 10 ^ length (tl rest))
           else Inl ValueError))"

text \<open>
  Calendar dates. \<open>datetime(year, month, day)\<close> raises \<open>ValueError\<close> unless the date
  exists; the time of day is kept as microseconds since midnight.
\<close>

record date =
  year :: nat
  month :: nat
  day :: nat

record datetime =
  dt_date :: date
  dt_time :: nat

definition is_leap :: "nat \<Rightarrow> bool" where
  "is_leap y = (y mod 4 = 0 \<and> (y mod 100 \<noteq> 0 \<or> y mod 400 = 0))"

definition days_in_month :: "nat \<Rightarrow> nat \<Rightarrow> nat" where
  "days_in_month y m =
     (if m = 2 then (if is_leap y then 29 else 28)
      else if m = 4 \<or> m = 6 \<or> m = 9 \<or> m = 11 then 30 else 31)"

definition make_datetime :: "nat \<Rightarrow> nat \<Rightarrow> nat \<Rightarrow> py_error + datetime" where
  "make_datetime y m d =
     (if 1 \<le> y \<and> y \<le> 9999 \<and> 1 \<le> m \<and> m \<le> 12 \<and> 1 \<le> d \<and> d \<le> days_in_month y m
      then Inr \<lparr>dt_date = \<lparr>year = y, month = m, day = d\<rparr>, dt_time = 0\<rparr>
      else Inl ValueError)"

text \<open>
  \<open>datetime.strptime(s, fmt)\<close>. A format is a list of directives; \<open>strptime\<close> turns it
  into a regular expression (a blank of the format becomes \<open>\s+\<close>, the month names are
  those of the C locale, longest first, matched without regard to case), matches it at
  the start of \<open>s\<close>, and raises \<open>ValueError\<close> when there is no match, when text remains
  after the match, or when the fields do not make a date.
\<close>

text \<open>
  The directives: \<open>DB\<close> is \<open>%B\<close>, \<open>Db\<close> is \<open>%b\<close>, \<open>Dd\<close> is \<open>%d\<close>, \<open>Dm\<close> is \<open>%m\<close>,
  \<open>DY\<close> is \<open>%Y\<close>, \<open>DWs\<close> is a blank and \<open>DLit c\<close> the character \<open>c\<close>. The month is
  group 1, the day group 2 and the year group 3 of the expression.
\<close>

datatype directive = DB | Db | Dd | Dm | DY | DWs | DLit char

definition month_names :: "string list" where
  "month_names = [''january'', ''february'', ''march'', ''april'', ''may'', ''june'', ''july'',
     ''august'', ''september'', ''october'', ''november'', ''december'']"

definition month_abbrs :: "string list" where
  "month_abbrs = map (take 3) month_names"

definition longest_first :: "string list \<Rightarrow> string list" where
  "longest_first xs = rev (sort_key length (rev xs))"

definition range_rx :: "char \<Rightarrow> char \<Rightarrow> rx" where
  "range_rx a b = Atom (\<lambda>c. cp a \<le> cp c \<and> cp c \<le> cp b)"

definition directive_rx :: "directive \<Rightarrow> rx" where
  "directive_rx d =
     (case d of
        DB \<Rightarrow> Group 1 (alts (map lit_ci (longest_first month_names)))
      | Db \<Rightarrow> Group 1 (alts (map lit_ci (longest_first month_abbrs)))
      | Dm \<Rightarrow> Group 1 (alts [Seq (lit ''1'') (range_rx (CHR ''0'') (CHR ''2'')),
                              Seq (lit ''0'') (range_rx (CHR ''1'') (CHR ''9'')),
                              range_rx (CHR ''1'') (CHR ''9'')])
      | Dd \<Rightarrow> Group 2 (alts [Seq (lit ''3'') (range_rx (CHR ''0'') (CHR ''1'')),
                              Seq (range_rx (CHR ''1'') (CHR ''2'')) digit,
                              Seq (lit ''0'') (range_rx (CHR ''1'') (CHR ''9'')),
                              range_rx (CHR ''1'') (CHR ''9''),
                              Seq (lit '' '') (range_rx (CHR ''1'') (CHR ''9''))])
      | DY \<Rightarrow> Group 3 (times 4 digit)
      | DWs \<Rightarrow> plus (Atom py_isspace)
      | DLit c \<Rightarrow> Atom (ci_eq c))"

definition index_of :: "'a \<Rightarrow> 'a list \<Rightarrow> nat option" where
  "index_of x xs = (if x \<in> set xs then Some (length (takeWhile (\<lambda>y. y \<noteq> x) xs)) else None)"

definition month_of :: "directive list \<Rightarrow> string \<Rightarrow> nat option" where
  "month_of fmt g =
     (if DB \<in> set fmt then map_option Suc (index_of (map py_lower g) month_names)
      else if Db \<in> set fmt then map_option Suc (index_of (map py_lower g) month_abbrs)
      else Some (nat_of_digits g))"

definition strptime :: "string \<Rightarrow> directive list \<Rightarrow> py_error + datetime" where
  "strptime s fmt =
     (case rmatch (seqs (map directive_rx fmt)) Some (None, s, []) of
        None \<Rightarrow> Inl ValueError
      | Some (_, rest, caps) \<Rightarrow>
          if rest \<noteq> [] then Inl ValueError
          else (case (map_of caps 1, map_of caps 2, map_of caps 3) of
                  (Some gm, Some gd, Some gy) \<Rightarrow>
                    (case month_of fmt gm of
                       None \<Rightarrow> Inl ValueError
                     | Some m \<Rightarrow>
                         make_datetime (nat_of_digits gy) m (nat_of_digits (filter py_isdigit gd)))
                | _ \<Rightarrow> Inl ValueError))"

section \<open>Helpers of \<open>app/ocr.py\<close>\<close>

text \<open>
  The leading underscore of the Python names is dropped: \<open>norm_text\<close> is \<open>_norm_text\<close>,
  and so on.
\<close>

definition DATE_PATTERNS :: "directive list list" where
  "DATE_PATTERNS =
     [[DB, DWs, Dd, DLit (CHR '',''), DWs, DY],
      [Db, DWs, Dd, DLit (CHR '',''), DWs, DY],
      [DY, DLit (CHR ''-''), Dm, DLit (CHR ''-''), Dd],
      [Dm, DLit (CHR ''/''), Dd, DLit (CHR ''/''), DY],
      [Dd, DLit (CHR ''/''), Dm, DLit (CHR ''/''), DY]]"

definition norm_text :: "string \<Rightarrow> string" where
  "norm_text s0 =
     (let s = replace_char CR LF s0;
          s = re_sub (plus (one_of [SP, TAB])) [SP] s;
          s = re_sub (Rep 2 None (Atom (\<lambda>c. c = LF))) [LF] s
      in py_strip s)"

definition collapse_spaces :: "string option \<Rightarrow> string option" where
  "collapse_spaces s =
     (if \<not> truthy s then None
      else Some (py_strip (re_sub (plus (Atom py_isspace)) [SP] (the s))))"

definition digits_only :: "string option \<Rightarrow> string" where
  "digits_only s =
     re_sub (Atom (\<lambda>c. \<not> py_isdigit c)) [] (case s of None \<Rightarrow> [] | Some t \<Rightarrow> t)"

definition first_group :: "rx \<Rightarrow> string \<Rightarrow> py_error + string option" where
  "first_group pattern text =
     (case re_search pattern text of
        None \<Rightarrow> Inr None
      | Some m \<Rightarrow>
          (case match_group m 1 of
             None \<Rightarrow> Inl AttributeError
           | Some g \<Rightarrow> Inr (Some (py_strip g))))"

definition money_rx :: rx where
  "money_rx = Group 1 (Seq (plus digit) (opt (Seq (lit ''.'') (Rep 1 (Some 2) digit))))"

definition money_to_float :: "string option \<Rightarrow> py_error + rat option" where
  "money_to_float s =
     (if \<not> truthy s then Inr None
      else
        (let s = filter (\<lambda>c. c \<noteq> CHR '','') (the s) in
         case re_search money_rx s of
           None \<Rightarrow> Inr None
         | Some m \<Rightarrow>
             (case py_float (match_group m 1) of
                Inr x \<Rightarrow> Inr (Some x)
              | Inl ValueError \<Rightarrow> Inr None
              | Inl e \<Rightarrow> Inl e)))"

text \<open>
  The loop over \<open>DATE_PATTERNS\<close>: the first format that parses wins. When none does,
  \<open>datetime.fromisoformat\<close> is tried; it is a library function whose accepted syntax
  depends on the Python version, so it is a parameter \<open>fromiso\<close> of the model, which answers
  \<open>None\<close> where \<open>fromisoformat\<close> raises \<open>ValueError\<close>.
\<close>

fun try_formats :: "string \<Rightarrow> directive list list \<Rightarrow> datetime option" where
  "try_formats s [] = None"
| "try_formats s (fmt # fmts) =
     (case strptime s fmt of
        Inr d \<Rightarrow> Some d
      | Inl _ \<Rightarrow> try_formats s fmts)"

definition parse_date_str :: "(string \<Rightarrow> datetime option) \<Rightarrow> string option \<Rightarrow> datetime option" where
  "parse_date_str fromiso s0 =
     (if \<not> truthy s0 then None
      else
        (let s1 = collapse_spaces s0 in
         if \<not> truthy s1 then None
         else
           (let s = py_strip (re_sub (Seq (plus (one_of '';|'')) Eol) [] (the s1)) in
            case try_formats s DATE_PATTERNS of
              Some d \<Rightarrow> Some d
            | None \<Rightarrow> fromiso s)))"

definition extract_section :: "string \<Rightarrow> string \<Rightarrow> string list \<Rightarrow> string" where
  "extract_section text start_marker end_markers =
     (case re_search (lit_ci start_marker) text of
        None \<Rightarrow> []
      | Some start \<Rightarrow>
          (let start_pos = m_end start;
               end_pos = fold (\<lambda>em end_pos.
                            case re_search (lit_ci em) (drop start_pos text) of
                              None \<Rightarrow> end_pos
                            | Some m \<Rightarrow> min end_pos (start_pos + m_start m))
                          end_markers (length text)
           in py_strip (take (end_pos - start_pos) (drop start_pos text))))"

definition label_line_rx :: "string \<Rightarrow> rx" where
  "label_line_rx label =
     seqs [lit_ci label, spaces, lit '':'', spaces, Group 1 (plus (Atom (\<lambda>c. c \<noteq> LF)))]"

definition extract_value_by_label :: "string \<Rightarrow> string \<Rightarrow> nat \<Rightarrow> py_error + string option" where
  "extract_value_by_label text label max_len =
     ebind (first_group (label_line_rx label) text) (\<lambda>v.
       if \<not> truthy v then Inr None
       else
         (let v = py_strip (the v) in
          Inr (Some (if length v > max_len then py_strip (take max_len v) else v))))"

definition letter :: rx where
  "letter = Atom (\<lambda>c. cp (py_lower c) \<ge> 97 \<and> cp (py_lower c) \<le> 122)"

definition block_rx :: "string \<Rightarrow> string list \<Rightarrow> rx" where
  "block_rx label stop_labels =
     seqs [lit_ci label, spaces, lit '':'', spaces,
           Group 1 (Lazy 0 None (Atom (\<lambda>c. True))),
           Look (alts [seqs [lit [LF], alts (map lit_ci stop_labels), spaces, lit '':''],
                       seqs [lit [LF], letter, Rep 3 None (Alt letter (lit '' '')), lit '':''],
                       Eos])]"

definition extract_block_after_label :: "string \<Rightarrow> string \<Rightarrow> string list \<Rightarrow> py_error + string option" where
  "extract_block_after_label text label stop_labels =
     ebind (first_group (block_rx label stop_labels) text) (\<lambda>v.
       Inr (if truthy v then collapse_spaces v else None))"

definition phone_rx :: rx where
  "phone_rx =
     Group 1 (seqs [opt (lit ''(''), times 3 digit, opt (lit '')''),
                    spaces, opt (one_of ''- ''), spaces, times 3 digit,
                    spaces, opt (one_of ''- ''), spaces, times 4 digit])"

definition extract_phone_from_chunk :: "string \<Rightarrow> string option" where
  "extract_phone_from_chunk chunk =
     (if chunk = [] then None
      else
        (case re_search phone_rx chunk of
           None \<Rightarrow> None
         | Some m \<Rightarrow>
             (let digits = digits_only (match_group m 1) in
              if length digits \<ge> 10 then Some (drop (length digits - 10) digits) else None)))"

text \<open>\<open>max(runs, key=len)\<close>: the first of the longest elements of a non-empty list.\<close>

definition max_by_len :: "string list \<Rightarrow> string" where
  "max_by_len runs = foldl (\<lambda>best x. if length x > length best then x else best) (hd runs) (tl runs)"

text \<open>
  The bounds are spliced into the pattern \<open>\d{min,max}\<close>; \<open>re\<close> refuses a repetition whose
  minimum exceeds its maximum.
\<close>

definition extract_long_digit_run :: "string option \<Rightarrow> nat \<Rightarrow> nat \<Rightarrow> py_error + string option" where
  "extract_long_digit_run chunk min_len max_len =
     (if \<not> truthy chunk then Inr None
      else
        (let digits = digits_only chunk in
         if min_len > max_len then Inl ReError
         else
           (let runs = re_findall (Rep min_len (Some max_len) digit) digits in
            if runs = [] then Inr None else Inr (Some (max_by_len runs)))))"

definition labeled_date_rx :: "string \<Rightarrow> rx" where
  "labeled_date_rx label =
     seqs [lit_ci label, spaces, lit '':'', spaces,
           Group 1 (alts
             [seqs [Rep 3 (Some 9) letter, plus (Atom py_isspace), Rep 1 (Some 2) digit,
                    lit '','', plus (Atom py_isspace), times 4 digit],
              seqs [times 4 digit, lit ''-'', times 2 digit, lit ''-'', times 2 digit],
              seqs [Rep 1 (Some 2) digit, lit ''/'', Rep 1 (Some 2) digit, lit ''/'', times 4 digit]])]"

definition extract_labeled_date ::
  "(string \<Rightarrow> datetime option) \<Rightarrow> string \<Rightarrow> string \<Rightarrow> py_error + datetime option" where
  "extract_labeled_date fromiso text label =
     ebind (first_group (labeled_date_rx label) text) (\<lambda>raw. Inr (parse_date_str fromiso raw))"

definition name_split_rx :: rx where
  "name_split_rx =
     seqs [Group 1 (alts (map lit_ci [''Monthly Payment Method'', ''First Bill Date'', ''User Name'',
             ''Account Number'', ''Phone Number'', ''Default Voicemail Password'', ''Address''])),
           spaces, lit '':'']"

fun pick_customer_name_loop :: "string \<Rightarrow> string list \<Rightarrow> py_error + string option" where
  "pick_customer_name_loop info_section [] = Inr None"
| "pick_customer_name_loop info_section (label # labels) =
     (case extract_value_by_label info_section label 200 of
        Inl e \<Rightarrow> Inl e
      | Inr v0 \<Rightarrow>
          (let v = collapse_spaces v0 in
           if truthy v then
             (let v = py_strip (re_split0 name_split_rx (the v)) in
              if v \<noteq> [] then Inr (Some v) else pick_customer_name_loop info_section labels)
           else pick_customer_name_loop info_section labels))"

definition pick_customer_name :: "string \<Rightarrow> py_error + string option" where
  "pick_customer_name info_section =
     pick_customer_name_loop info_section
       [''Customer Name'', ''Company Name'', ''Customer ID'', ''Account Number'']"

text \<open>\<open>s.split("\n")\<close> and Python's \<open>a or b\<close> on optional strings that may raise.\<close>

fun split_on :: "char \<Rightarrow> string \<Rightarrow> string list" where
  "split_on sep [] = [[]]"
| "split_on sep (c # cs) =
     (if c = sep then [] # split_on sep cs
      else (case split_on sep cs of [] \<Rightarrow> [[c]] | l # ls \<Rightarrow> (c # l) # ls))"

definition por :: "py_error + string option \<Rightarrow> py_error + string option \<Rightarrow> py_error + string option" where
  "por a b = (case a of Inl e \<Rightarrow> Inl e | Inr v \<Rightarrow> if truthy v then Inr v else b)"

definition charge_rx :: "string \<Rightarrow> rx" where
  "charge_rx label =
     seqs [lit_ci label, spaces, lit '':'', spaces, opt (lit ''$''), spaces,
           Group 1 (plus (Alt digit (one_of ''.,'')))]"

definition plan_split_rx :: rx where
  "plan_split_rx =
     Alt (seqs [lit_ci ''Monthly Rate Plan Charge'', spaces, lit '':''])
         (seqs [lit_ci ''Minimum Monthly Charge'', spaces, lit '':''])"

definition header_rx :: rx where
  "header_rx =
     Seq Bos (Group 1 (alts (map lit_ci [''YOUR RATE PLAN DETAILS'', ''YOUR RATE PLAN ADD-ONS'',
       ''MINIMUM MONTHLY CHARGE'', ''TOTAL MONTHLY CHARGE''])))"

definition plan_label_rx :: rx where
  "plan_label_rx = Seq Bos (Group 1 (seqs [lit_ci ''Plan'', spaces, lit '':'']))"

text \<open>
  The characters stripped from a line of the rate section: a mis-encoded bullet (the code
  points 0xE2, 0x20AC and 0xA2), the asterisk, the blank and the tab. The code point
  0x20AC lies outside the modelled range.
\<close>

definition bullet_chars :: "char \<Rightarrow> bool" where
  "bullet_chars c = (cp c = 226 \<or> cp c = 162 \<or> c = CHR ''*'' \<or> c = SP \<or> c = TAB)"

fun plan_line_loop :: "string option \<Rightarrow> string list \<Rightarrow> string option" where
  "plan_line_loop plan_name [] = plan_name"
| "plan_line_loop plan_name (line # rest_lines) =
     (if re_search header_rx line \<noteq> None then plan_line_loop plan_name rest_lines
      else if re_search plan_label_rx line \<noteq> None then plan_line_loop plan_name rest_lines
      else collapse_spaces (Some line))"

text \<open>The charge found in the Plan line: the two labels in this order.\<close>

definition plan_line_charge :: "string \<Rightarrow> py_error + rat option" where
  "plan_line_charge plan_line =
     ebind (first_group (charge_rx ''Monthly Rate Plan Charge'') plan_line) (\<lambda>charge_raw.
     ebind (if truthy charge_raw then money_to_float charge_raw else Inr None) (\<lambda>plan_charge.
       if plan_charge = None then
         ebind (first_group (charge_rx ''Minimum Monthly Charge'') plan_line) (\<lambda>charge_raw.
           if truthy charge_raw then money_to_float charge_raw else Inr None)
       else Inr plan_charge))"

definition pick_plan_name_and_charge :: "string \<Rightarrow> string \<Rightarrow> py_error + (string option \<times> rat option)" where
  "pick_plan_name_and_charge rate_section full_text =
     ebind (por (extract_value_by_label rate_section ''Plan'' 250)
                (extract_value_by_label full_text ''Plan'' 250)) (\<lambda>plan_line.
     ebind (if truthy plan_line then plan_line_charge (the plan_line) else Inr None) (\<lambda>plan_charge.
       (let plan_name =
              (if truthy plan_line
               then collapse_spaces (Some (py_strip (re_split0 plan_split_rx (the plan_line))))
               else None);
            plan_name =
              (if \<not> truthy plan_name
               then plan_line_loop plan_name
                      (map (strip_chars bullet_chars)
                         (filter (\<lambda>line. py_strip line \<noteq> []) (split_on LF rate_section)))
               else plan_name)
        in Inr (plan_name, plan_charge))))"

section \<open>The output record of \<open>app/models.py\<close>\<close>

record AddOn =
  name :: string
  monthly_charge :: rat

record ContractExtraction =
  customer_name :: "string option"
  customer_phone :: "string option"
  customer_address :: "string option"
  plan_name :: "string option"
  plan_charge :: "rat option"
  minimum_monthly_plan :: "rat option"
  contract_start_date :: "date option"
  contract_end_date :: "date option"
  order_number :: "string option"
  activity :: "string option"
  down_payment :: "rat option"
  device_model :: "string option"
  device_imei :: "string option"
  serial_number :: "string option"
  sim_number :: "string option"
  add_ons :: "AddOn list"

text \<open>
  The constructor call of \<open>parse_contract_text\<close>. The class is a pydantic \<open>BaseModel\<close> with
  the default configuration, which ignores a keyword that names no declared field:
  \<open>raw_text\<close> is passed and dropped; \<open>serial_number\<close> and \<open>add_ons\<close> are not passed and
  take their defaults.
\<close>

definition new_ContractExtraction ::
  "string option \<Rightarrow> string option \<Rightarrow> string option \<Rightarrow> string option \<Rightarrow> rat option \<Rightarrow> rat option
   \<Rightarrow> date option \<Rightarrow> date option \<Rightarrow> string option \<Rightarrow> string option \<Rightarrow> rat option
   \<Rightarrow> string option \<Rightarrow> string option \<Rightarrow> string option \<Rightarrow> string \<Rightarrow> ContractExtraction" where
  "new_ContractExtraction customer_name' customer_phone' customer_address' plan_name' plan_charge'
     minimum_monthly_plan' contract_start_date' contract_end_date' order_number' activity'
     down_payment' device_model' device_imei' sim_number' raw_text' =
     \<lparr>customer_name = customer_name', customer_phone = customer_phone',
      customer_address = customer_address', plan_name = plan_name', plan_charge = plan_charge',
      minimum_monthly_plan = minimum_monthly_plan', contract_start_date = contract_start_date',
      contract_end_date = contract_end_date', order_number = order_number', activity = activity',
      down_payment = down_payment', device_model = device_model', device_imei = device_imei',
      serial_number = None, sim_number = sim_number', add_ons = []\<rparr>"

section \<open>\<open>parse_contract_text\<close>\<close>

definition or_text :: "string \<Rightarrow> string \<Rightarrow> string" where
  "or_text section text = (if section = [] then text else section)"

definition order_split_rx :: rx where
  "order_split_rx = seqs [WordB, Group 1 (alts (map lit_ci [''Store'', ''Date'', ''Activity''])), spaces, lit '':'']"

definition activity_split_rx :: rx where
  "activity_split_rx =
     seqs [WordB, Group 1 (alts (map lit_ci [''Store Phone Number'', ''Store'', ''Date''])), spaces, lit '':'']"

definition model_split_rx :: rx where
  "model_split_rx =
     seqs [WordB, Group 1 (alts (map lit_ci [''Early Cancellation Fee'', ''IMEI/ESN/MEID'',
             ''SIM Number'', ''Commitment Period'', ''Start Date'', ''End Date''])), WordB]"

definition min_monthly_rx :: rx where
  "min_monthly_rx =
     seqs [lit_ci ''MINIMUM MONTHLY CHARGE'', spaces, lit_ci ''(FOR DEVICE AND RATE PLAN)'', spaces,
           lit '':'', spaces, opt (lit ''$''), spaces, Group 1 (plus (Alt digit (one_of ''.,'')))]"

text \<open>\<open>v = re.split(pattern, v)[0].strip()\<close> under \<open>if v:\<close>, then \<open>_collapse_spaces(v)\<close>.\<close>

definition cut_and_collapse :: "rx \<Rightarrow> string option \<Rightarrow> string option" where
  "cut_and_collapse r v =
     collapse_spaces (if truthy v then Some (py_strip (re_split0 r (the v))) else v)"

text \<open>\<open>a or b\<close> on optional dates: a \<open>datetime\<close> is always true.\<close>

definition por_date :: "py_error + datetime option \<Rightarrow> py_error + datetime option \<Rightarrow> py_error + datetime option" where
  "por_date a b = (case a of Inl e \<Rightarrow> Inl e | Inr None \<Rightarrow> b | Inr (Some d) \<Rightarrow> Inr (Some d))"

text \<open>The retry for the plan charge on the whole text, as written in the source.\<close>

definition retry_plan_charge :: "string \<Rightarrow> rat option \<Rightarrow> py_error + rat option" where
  "retry_plan_charge text plan_charge' =
     (if plan_charge' = None then
        ebind (ebind (first_group (charge_rx ''Minimum Monthly Charge'') text) money_to_float) (\<lambda>byod_min.
          if byod_min \<noteq> None then Inr byod_min
          else
            ebind (ebind (first_group (charge_rx ''Monthly Rate Plan Charge'') text) money_to_float) (\<lambda>mrc.
              if mrc \<noteq> None then Inr mrc else Inr plan_charge'))
      else Inr plan_charge')"

definition parse_contract_text ::
  "(string \<Rightarrow> datetime option) \<Rightarrow> string \<Rightarrow> py_error + ContractExtraction" where
  "parse_contract_text fromiso full_text =
     (let text = norm_text full_text;
          info_section = extract_section text ''YOUR INFORMATION:''
            [''YOUR DEVICE DETAILS:'', ''YOUR DEVICE DETAILS'', ''YOUR RATE PLAN DETAILS:'',
             ''CRITICAL INFORMATION SUMMARY''];
          device_section = extract_section text ''YOUR DEVICE DETAILS:''
            [''YOUR RATE PLAN DETAILS:'', ''YOUR RATE PLAN DETAILS'', ''MINIMUM MONTHLY CHARGE'',
             ''TOTAL MONTHLY CHARGE''];
          rate_section = extract_section text ''YOUR RATE PLAN DETAILS:''
            [''YOUR RATE PLAN ADD-ONS:'', ''YOUR PROMOTIONS:'', ''TOTAL MONTHLY CHARGE:'',
             ''ONE-TIME CHARGES:'']
      in
      ebind (pick_customer_name (or_text info_section text)) (\<lambda>customer_name'.
      ebind (por (extract_value_by_label (or_text info_section text) ''Phone Number'' 200)
                 (extract_value_by_label (or_text info_section text) ''Phone'' 200)) (\<lambda>raw_phone_line.
      let customer_phone' =
            (if truthy raw_phone_line then extract_phone_from_chunk (the raw_phone_line) else None)
      in
      ebind (extract_block_after_label (or_text info_section text) ''Address''
               [''Monthly Payment Method'', ''First Bill Date'', ''User Name'', ''Account Number'',
                ''Phone Number'', ''Default Voicemail Password'', ''Customer ID'']) (\<lambda>customer_address'.
      ebind (extract_value_by_label text ''Order Number'' 200) (\<lambda>order_number'.
      let order_number' = cut_and_collapse order_split_rx order_number' in
      ebind (extract_value_by_label text ''Activity'' 200) (\<lambda>activity'.
      let activity' = cut_and_collapse activity_split_rx activity' in
      ebind (por_date (extract_labeled_date fromiso (or_text device_section text) ''Start Date'')
                      (extract_labeled_date fromiso text ''Start Date'')) (\<lambda>contract_start.
      ebind (por_date (extract_labeled_date fromiso (or_text device_section text) ''End Date'')
                      (extract_labeled_date fromiso text ''End Date'')) (\<lambda>contract_end.
      ebind (pick_plan_name_and_charge (or_text rate_section text) text) (\<lambda>(plan_name', plan_charge').
      ebind (ebind (first_group min_monthly_rx text) money_to_float) (\<lambda>minimum_monthly_plan'.
      ebind (retry_plan_charge text plan_charge') (\<lambda>plan_charge'.
      ebind (extract_value_by_label (or_text device_section text) ''Model'' 200) (\<lambda>model_raw.
      let device_model' = cut_and_collapse model_split_rx model_raw in
      ebind (por (extract_value_by_label (or_text device_section text) ''IMEI/ESN/MEID'' 200)
                 (extract_value_by_label (or_text device_section text) ''IMEI'' 200)) (\<lambda>imei_chunk.
      ebind (extract_long_digit_run imei_chunk 10 20) (\<lambda>device_imei'.
      ebind (por (extract_value_by_label (or_text device_section text) ''SIM Number'' 250)
                 (extract_value_by_label (or_text device_section text) ''SIM'' 250)) (\<lambda>sim_chunk.
      ebind (extract_long_digit_run sim_chunk 18 22) (\<lambda>sim_number'.
        Inr (new_ContractExtraction customer_name' customer_phone' customer_address' plan_name'
               plan_charge' minimum_monthly_plan' (map_option dt_date contract_start)
               (map_option dt_date contract_end) order_number' activity' None device_model'
               device_imei' sim_number' full_text)))))))))))))))))"

section \<open>Auxiliary notions for the proofs\<close>

text \<open>
  The state reached after reading \<open>j\<close> characters, the length of the run of characters of a
  class at the head of a text, and the function that replaces every maximal run of a
  class by one character.
\<close>

definition adv :: "nat \<Rightarrow> mstate \<Rightarrow> mstate" where
  "adv j st = (case st of (prev, s, caps) \<Rightarrow> (if j = 0 then prev else Some (s ! (j - 1)), drop j s, caps))"

definition run_len :: "(char \<Rightarrow> bool) \<Rightarrow> string \<Rightarrow> nat" where
  "run_len P s = length (takeWhile P s)"

function squeeze :: "(char \<Rightarrow> bool) \<Rightarrow> char \<Rightarrow> string \<Rightarrow> string" where
  "squeeze P a [] = []"
| "squeeze P a (c # cs) = (if P c then a # squeeze P a (dropWhile P cs) else c # squeeze P a cs)"
  by pat_completeness auto
termination
  by (relation "measure (\<lambda>(P, a, s). length s)") (auto simp: length_dropWhile_le less_Suc_eq_le)

fun squeezed :: "(char \<Rightarrow> bool) \<Rightarrow> char \<Rightarrow> string \<Rightarrow> bool" where
  "squeezed P a [] = True"
| "squeezed P a [c] = (P c \<longrightarrow> c = a)"
| "squeezed P a (c # d # t) = ((P c \<longrightarrow> c = a \<and> \<not> P d) \<and> squeezed P a (d # t))"

text \<open>
  A literal matched without regard to case at the head of a text, and the first position
  at which it occurs.
\<close>

fun ci_prefix :: "string \<Rightarrow> string \<Rightarrow> bool" where
  "ci_prefix [] s = True"
| "ci_prefix (p # ps) [] = False"
| "ci_prefix (p # ps) (c # cs) = (ci_eq p c \<and> ci_prefix ps cs)"

fun find_ci :: "string \<Rightarrow> string \<Rightarrow> nat option" where
  "find_ci l [] = (if ci_prefix l [] then Some 0 else None)"
| "find_ci l (c # cs) = (if ci_prefix l (c # cs) then Some 0 else map_option Suc (find_ci l cs))"

text \<open>
  The section slicer in the words of the specification: a marker occurs at position \<open>i\<close>
  of a text when the text reads the marker there, letter case apart; a section ends at
  the earliest occurrence of any end marker after the start, or with the text.
\<close>

definition occurs_ci :: "string \<Rightarrow> string \<Rightarrow> nat \<Rightarrow> bool" where
  "occurs_ci marker text i =
     (i + length marker \<le> length text \<and>
      map py_lower (take (length marker) (drop i text)) = map py_lower marker)"

definition section_end :: "string \<Rightarrow> nat \<Rightarrow> string list \<Rightarrow> nat" where
  "section_end text start_pos end_markers =
     Min (insert (length text)
       {start_pos + j | j em. em \<in> set end_markers \<and> occurs_ci em (drop start_pos text) j})"

definition end_step :: "string \<Rightarrow> nat \<Rightarrow> string \<Rightarrow> nat \<Rightarrow> nat" where
  "end_step tail sp em e = (case find_ci em tail of None \<Rightarrow> e | Some j \<Rightarrow> min e (sp + j))"

text \<open>
  Groups: a pattern that sets group \<open>n\<close> in every match, a state that holds group \<open>n\<close>, and
  a matcher that hands to its continuation a state which keeps the groups it was given
  (and holds group \<open>n\<close>, when \<open>S\<close> is true).
\<close>

primrec sets_group :: "nat \<Rightarrow> rx \<Rightarrow> bool" where
  "sets_group n (Atom P) = False"
| "sets_group n Eps = False"
| "sets_group n (Seq a b) = (sets_group n a \<or> sets_group n b)"
| "sets_group n (Alt a b) = (sets_group n a \<and> sets_group n b)"
| "sets_group n (Rep lo hi a) = (0 < lo \<and> sets_group n a)"
| "sets_group n (Lazy lo hi a) = (0 < lo \<and> sets_group n a)"
| "sets_group n (Group m a) = (m = n \<or> sets_group n a)"
| "sets_group n (Look a) = False"
| "sets_group n Bos = False"
| "sets_group n Eos = False"
| "sets_group n Eol = False"
| "sets_group n WordB = False"

definition has_group :: "nat \<Rightarrow> mstate \<Rightarrow> bool" where
  "has_group n st = (n \<in> fst ` set (snd (snd st)))"

definition passes :: "nat \<Rightarrow> bool \<Rightarrow> matcher \<Rightarrow> bool" where
  "passes n S m = (\<forall>k st y. m k st = Some y \<longrightarrow>
     (\<exists>st'. k st' = Some y \<and> (has_group n st \<longrightarrow> has_group n st') \<and> (S \<longrightarrow> has_group n st')))"

text \<open>
  The three sections as \<open>parse_contract_text\<close> uses them (the whole text when a section is
  empty), a \<open>fromisoformat\<close> that rejects every string, and the text of a contract that
  has both charge labels and no Plan line.
\<close>

definition no_iso :: "string \<Rightarrow> datetime option" where
  "no_iso s = None"

definition info_of :: "string \<Rightarrow> string" where
  "info_of doc = or_text (extract_section doc ''YOUR INFORMATION:''
     [''YOUR DEVICE DETAILS:'', ''YOUR DEVICE DETAILS'', ''YOUR RATE PLAN DETAILS:'',
      ''CRITICAL INFORMATION SUMMARY'']) doc"

definition device_of :: "string \<Rightarrow> string" where
  "device_of doc = or_text (extract_section doc ''YOUR DEVICE DETAILS:''
     [''YOUR RATE PLAN DETAILS:'', ''YOUR RATE PLAN DETAILS'', ''MINIMUM MONTHLY CHARGE'',
      ''TOTAL MONTHLY CHARGE'']) doc"

definition rate_of :: "string \<Rightarrow> string" where
  "rate_of doc = or_text (extract_section doc ''YOUR RATE PLAN DETAILS:''
     [''YOUR RATE PLAN ADD-ONS:'', ''YOUR PROMOTIONS:'', ''TOTAL MONTHLY CHARGE:'',
      ''ONE-TIME CHARGES:'']) doc"

definition two_charges :: string where
  "two_charges = ''Monthly Rate Plan Charge: $20.00'' @ [LF] @ ''Minimum Monthly Charge: $85.00''"






section \<open>Evaluation of the matcher\<close>

declare rmatch.simps [simp del]

lemma rep_greedy_unf:
  "rep_greedy m lo n k st =
     (if lo \<noteq> 0 then m (rep_greedy m (lo - 1) n k) st
      else if n \<noteq> 0 then orelse (m (rep_greedy m 0 (n - 1) k) st) (k st)
      else k st)"
  by (cases lo; cases n) simp_all

lemma rep_lazy_unf:
  "rep_lazy m lo n k st =
     (if lo \<noteq> 0 then m (rep_lazy m (lo - 1) n k) st
      else if n \<noteq> 0 then orelse (k st) (m (rep_lazy m 0 (n - 1) k) st)
      else k st)"
  by (cases lo; cases n) simp_all

text \<open>The equations of the matcher, applied to a continuation and a state.\<close>

lemma rmatch_Atom_Nil: "rmatch (Atom P) k (prev, [], caps) = None"
  by (simp add: rmatch.simps)

lemma rmatch_Atom_Cons:
  "rmatch (Atom P) k (prev, c # cs, caps) = (if P c then k (Some c, cs, caps) else None)"
  by (simp add: rmatch.simps)

lemma rmatch_Eps: "rmatch Eps k st = k st"
  by (simp add: rmatch.simps)

lemma rmatch_Seq: "rmatch (Seq a b) k st = rmatch a (rmatch b k) st"
  by (simp add: rmatch.simps)

lemma rmatch_Alt: "rmatch (Alt a b) k st = orelse (rmatch a k st) (rmatch b k st)"
  by (simp add: rmatch.simps)

lemma rmatch_Rep:
  "rmatch (Rep lo hi a) k (prev, s, caps) =
     rep_greedy (rmatch a) lo (extra_iters lo hi s) k (prev, s, caps)"
  by (simp add: rmatch.simps)

lemma rmatch_Lazy:
  "rmatch (Lazy lo hi a) k (prev, s, caps) =
     rep_lazy (rmatch a) lo (extra_iters lo hi s) k (prev, s, caps)"
  by (simp add: rmatch.simps)

lemma rmatch_Group:
  "rmatch (Group n a) k (prev, s, caps) =
     rmatch a (\<lambda>(prev', s', caps'). k (prev', s', (n, take (length s - length s') s) # caps'))
       (prev, s, caps)"
  by (simp add: rmatch.simps)

lemma rmatch_Look:
  "rmatch (Look a) k st = (case rmatch a Some st of None \<Rightarrow> None | Some _ \<Rightarrow> k st)"
  by (simp add: rmatch.simps)

lemma rmatch_Bos: "rmatch Bos k (prev, s, caps) = (if prev = None then k (prev, s, caps) else None)"
  by (simp add: rmatch.simps)

lemma rmatch_Eos: "rmatch Eos k (prev, s, caps) = (if s = [] then k (prev, s, caps) else None)"
  by (simp add: rmatch.simps)

lemma rmatch_Eol:
  "rmatch Eol k (prev, s, caps) = (if s = [] \<or> s = [LF] then k (prev, s, caps) else None)"
  by (simp add: rmatch.simps)

lemma rmatch_WordB:
  "rmatch WordB k (prev, s, caps) = (if at_word_boundary prev s then k (prev, s, caps) else None)"
  by (simp add: rmatch.simps)

lemmas rmatch_app = rmatch_Atom_Nil rmatch_Atom_Cons rmatch_Eps rmatch_Seq rmatch_Alt rmatch_Rep
  rmatch_Lazy rmatch_Group rmatch_Look rmatch_Bos rmatch_Eos rmatch_Eol rmatch_WordB

section \<open>Repetition of a character class\<close>

lemma run_len_simps [simp]:
  "run_len P [] = 0"
  "run_len P (c # cs) = (if P c then Suc (run_len P cs) else 0)"
  by (simp_all add: run_len_def)

lemma adv_0 [simp]: "adv 0 st = st"
  by (cases st) (simp add: adv_def)

lemma adv_Suc_Cons [simp]: "adv (Suc j) (prev, c # cs, caps) = adv j (Some c, cs, caps)"
  by (cases j) (simp_all add: adv_def)


lemma rep_greedy_atom0:
  "rep_greedy (rmatch (Atom P)) 0 n Some (prev, s, caps) = Some (adv (min n (run_len P s)) (prev, s, caps))"
proof (induction n arbitrary: prev s)
  case 0
  then show ?case by simp
next
  case (Suc n)
  show ?case
  proof (cases s)
    case Nil
    then show ?thesis by (simp add: orelse_def rmatch_Atom_Nil)
  next
    case (Cons c cs)
    then show ?thesis using Suc.IH[of "Some c" cs]
      by (simp add: orelse_def rmatch_Atom_Cons)
  qed
qed

lemma rep_greedy_atom:
  "rep_greedy (rmatch (Atom P)) lo n Some (prev, s, caps) =
     (if lo \<le> run_len P s then Some (adv (min (lo + n) (run_len P s)) (prev, s, caps)) else None)"
proof (induction lo arbitrary: prev s)
  case 0
  then show ?case by (simp add: rep_greedy_atom0)
next
  case (Suc lo)
  show ?case
  proof (cases s)
    case Nil
    then show ?thesis by (simp add: rmatch_Atom_Nil)
  next
    case (Cons c cs)
    then show ?thesis using Suc.IH[of "Some c" cs]
      by (simp add: rmatch_Atom_Cons)
  qed
qed


lemma drop_run_len: "drop (run_len P s) s = dropWhile P s"
  by (induction s) auto


lemma run_len_le: "run_len P s \<le> length s"
  by (simp add: run_len_def length_takeWhile_le)

lemma rmatch_Rep_open_atom:
  "rmatch (Rep lo None (Atom P)) Some (prev, s, caps) =
     (if lo \<le> run_len P s then Some (adv (run_len P s) (prev, s, caps)) else None)"
proof -
  have "min (lo + length s) (run_len P s) = run_len P s"
    using run_len_le[of P s] by simp
  then show ?thesis
    by (simp add: rmatch_Rep extra_iters_def rep_greedy_atom)
qed

lemma length_dropWhile_run: "length (dropWhile P s) = length s - run_len P s"
  by (induction s) auto

lemma sub_from_squeeze:
  assumes lo: "lo = 1 \<or> (lo = 2 \<and> P = (\<lambda>c. c = a))"
  shows "sub_from (Rep lo None (Atom P)) [a] prev s = squeeze P a s"
proof (induction "length s" arbitrary: s prev rule: less_induct)
  case less
  show ?case
  proof (cases s)
    case Nil
    with lo show ?thesis
      by (subst sub_from.simps) (auto simp: rmatch_Rep_open_atom)
  next
    case (Cons c cs)
    have len: "length (dropWhile P cs) < length s"
      using Cons by (simp add: length_dropWhile_le less_Suc_eq_le)
    have IH1: "sub_from (Rep lo None (Atom P)) [a] p (dropWhile P cs) = squeeze P a (dropWhile P cs)" for p
      using less[OF len] .
    have IH2: "sub_from (Rep lo None (Atom P)) [a] p cs = squeeze P a cs" for p
      using less[of cs] Cons by simp
    show ?thesis
    proof (cases "lo \<le> run_len P s")
      case True
      with lo Cons have Pc: "P c" by (auto split: if_splits)
      have d: "drop (length s - length (drop (run_len P s) s)) s = dropWhile P cs"
        using Cons Pc run_len_le[of P cs] by (simp add: drop_run_len length_dropWhile_run)
      have l: "length (drop (run_len P s) s) < length s"
        using Cons Pc by simp
      show ?thesis
        apply (subst sub_from.simps)
        using True d l Cons Pc
        by (simp add: rmatch_Rep_open_atom adv_def IH1)
    next
      case False
      have "c # squeeze P a cs = squeeze P a (c # cs)"
      proof (cases "P c")
        case True
        with False lo Cons have "lo = 2" "P = (\<lambda>c. c = a)" "run_len P cs = 0"
          by (auto split: if_splits)
        then have "dropWhile P cs = cs" "c = a"
          using True by (cases cs; auto)+
        with True show ?thesis by simp
      next
        case False
        then show ?thesis by simp
      qed
      with False Cons show ?thesis
        by (subst sub_from.simps) (simp add: rmatch_Rep_open_atom IH2)
    qed
  qed
qed


section \<open>The text normalizer\<close>

lemma squeezed_Cons:
  "squeezed P a (c # t) = ((P c \<longrightarrow> c = a \<and> (t = [] \<or> \<not> P (hd t))) \<and> squeezed P a t)"
  by (cases t) auto

lemma squeeze_head:
  "s = [] \<or> \<not> P (hd s) \<Longrightarrow> squeeze P a s = [] \<or> \<not> P (hd (squeeze P a s))"
  by (cases s) auto

lemma dropWhile_head: "dropWhile P s = [] \<or> \<not> P (hd (dropWhile P s))"
  by (induction s) auto

lemma squeezed_squeeze: "squeezed P a (squeeze P a s)"
proof (induction P a s rule: squeeze.induct)
  case (1 P a)
  then show ?case by simp
next
  case (2 P a c cs)
  then show ?case
    using squeeze_head[where s="dropWhile P cs" and P=P and a=a, OF dropWhile_head]
    by (auto simp: squeezed_Cons)
qed

lemma squeeze_fixed: "squeezed P a t \<Longrightarrow> squeeze P a t = t"
proof (induction P a t rule: squeeze.induct)
  case (1 P a)
  then show ?case by simp
next
  case (2 P a c cs)
  then show ?case
    by (cases cs) (auto simp: squeezed_Cons)
qed

lemma squeezed_append: "squeezed P a (xs @ ys) \<Longrightarrow> squeezed P a xs \<and> squeezed P a ys"
  by (induction xs) (auto simp: squeezed_Cons hd_append split: if_splits)

lemma strip_chars_decomp: "\<exists>xs ys. s = xs @ strip_chars Q s @ ys"
proof -
  let ?d = "dropWhile Q s"
  have "?d = rev (dropWhile Q (rev ?d)) @ rev (takeWhile Q (rev ?d))"
    by (metis rev_append rev_rev_ident takeWhile_dropWhile_id)
  then have "s = takeWhile Q s @ strip_chars Q s @ rev (takeWhile Q (rev ?d))"
    by (metis strip_chars_def takeWhile_dropWhile_id)
  then show ?thesis by blast
qed

lemma squeezed_strip: "squeezed P a s \<Longrightarrow> squeezed P a (strip_chars Q s)"
  by (metis squeezed_append strip_chars_decomp)

lemma set_strip_chars: "set (strip_chars Q s) \<subseteq> set s"
  by (metis strip_chars_decomp Un_upper1 Un_upper2 set_append subset_trans)

lemma set_squeeze: "set (squeeze P a s) \<subseteq> insert a (set s)"
proof (induction P a s rule: squeeze.induct)
  case (1 P a)
  then show ?case by simp
next
  case (2 P a c cs)
  then show ?case using set_dropWhileD[of _ P cs] by auto
qed

lemma squeezed_dropWhile: "squeezed P a s \<Longrightarrow> squeezed P a (dropWhile Q s)"
  using squeezed_append[of P a "takeWhile Q s" "dropWhile Q s"] by simp

lemma squeeze_head_other:
  "s = [] \<or> \<not> P (hd s) \<Longrightarrow> \<not> P b \<Longrightarrow> squeeze Q b s = [] \<or> \<not> P (hd (squeeze Q b s))"
  by (cases s) auto

lemma squeezed_squeeze_other:
  "\<not> P b \<Longrightarrow> squeezed P a s \<Longrightarrow> squeezed P a (squeeze Q b s)"
proof (induction Q b s rule: squeeze.induct)
  case (1 Q b)
  then show ?case by simp
next
  case (2 Q b c cs)
  show ?case
  proof (cases "Q c")
    case True
    have "squeezed P a (dropWhile Q cs)"
      using "2.prems"(2) by (simp add: squeezed_Cons squeezed_dropWhile)
    with 2 True show ?thesis by (simp add: squeezed_Cons)
  next
    case False
    with 2 show ?thesis
      using squeeze_head_other[of cs P b Q]
      by (auto simp: squeezed_Cons)
  qed
qed

lemma dropWhile_fixed: "t = [] \<or> \<not> Q (hd t) \<Longrightarrow> dropWhile Q t = t"
  by (cases t) auto

lemma strip_chars_idem: "strip_chars Q (strip_chars Q s) = strip_chars Q s"
proof -
  let ?d = "dropWhile Q s"
  let ?u = "rev (dropWhile Q (rev ?d))"
  have d: "?d = ?u @ rev (takeWhile Q (rev ?d))"
    by (metis rev_append rev_rev_ident takeWhile_dropWhile_id)
  have "?u = [] \<or> \<not> Q (hd ?u)"
  proof (cases "?u = []")
    case True
    then show ?thesis by simp
  next
    case False
    then have "hd ?u = hd ?d" using d by (metis hd_append2)
    moreover have "?d \<noteq> []"
    proof
      assume "?d = []"
      then have "?u = []" by (simp only: rev.simps dropWhile.simps)
      with False show False by blast
    qed
    ultimately show ?thesis using dropWhile_head[of Q s] by metis
  qed
  then have "dropWhile Q ?u = ?u" by (rule dropWhile_fixed)
  then show ?thesis by (simp add: strip_chars_def dropWhile_idem)
qed

lemma replace_char_absent: "a \<notin> set s \<Longrightarrow> replace_char a b s = s"
  by (induction s) (auto simp: replace_char_def)

lemma set_replace_char: "a \<noteq> b \<Longrightarrow> a \<notin> set (replace_char a b s)"
  by (auto simp: replace_char_def)

lemma norm_text_squeeze:
  "norm_text s = py_strip (squeeze (\<lambda>c. c = LF) LF (squeeze (\<lambda>c. c \<in> set [SP, TAB]) SP (replace_char CR LF s)))"
  by (simp add: norm_text_def re_sub_def plus_def one_of_def sub_from_squeeze Let_def)

text \<open>
  Claim C7: the text normalizer is idempotent; normalizing a normalized text changes
  nothing.
\<close>

theorem norm_text_idempotent: "norm_text (norm_text s) = norm_text s"
proof -
  let ?hs = "\<lambda>c. c \<in> set [SP, TAB]"
  let ?nl = "\<lambda>c. c = LF"
  let ?r = "replace_char CR LF s"
  let ?a = "squeeze ?hs SP ?r"
  let ?b = "squeeze ?nl LF ?a"
  let ?t = "py_strip ?b"
  have t: "norm_text s = ?t" by (rule norm_text_squeeze)
  have "CR \<notin> set ?r" by (rule set_replace_char) simp
  then have "CR \<notin> set ?a" using set_squeeze[of ?hs SP ?r] by auto
  then have "CR \<notin> set ?b" using set_squeeze[of ?nl LF ?a] by auto
  then have "CR \<notin> set ?t" using set_strip_chars[of py_isspace ?b] by (auto simp: py_strip_def)
  then have 1: "replace_char CR LF ?t = ?t" by (rule replace_char_absent)
  have "squeezed ?hs SP ?a" by (rule squeezed_squeeze)
  then have "squeezed ?hs SP ?b"
    by (rule squeezed_squeeze_other[where P="?hs" and b=LF and Q="?nl", rotated]) simp
  then have "squeezed ?hs SP ?t" unfolding py_strip_def by (rule squeezed_strip)
  then have 2: "squeeze ?hs SP ?t = ?t" by (rule squeeze_fixed)
  have "squeezed ?nl LF ?b" by (rule squeezed_squeeze)
  then have "squeezed ?nl LF ?t" unfolding py_strip_def by (rule squeezed_strip)
  then have 3: "squeeze ?nl LF ?t = ?t" by (rule squeeze_fixed)
  have 4: "py_strip ?t = ?t" by (simp add: py_strip_def strip_chars_idem)
  show ?thesis
    unfolding t by (subst norm_text_squeeze) (simp only: 1 2 3 4)
qed


theorem norm_text_idempotent_witness:
  "norm_text (norm_text (''a  b'' @ [TAB, CR, CR, LF] @ '' c  '')) = ''a b '' @ [LF] @ '' c''"
proof -
  have "norm_text (''a  b'' @ [TAB, CR, CR, LF] @ '' c  '') = ''a b '' @ [LF] @ '' c''"
    by (simp add: norm_text_squeeze replace_char_def py_strip_def strip_chars_def py_isspace_def cp_def)
  then show ?thesis
    using norm_text_idempotent [of "''a  b'' @ [TAB, CR, CR, LF] @ '' c  ''"] by simp
qed

section \<open>Evaluation of character classes on literals\<close>

lemma py_lower_Char:
  "py_lower (Char b0 b1 b2 b3 b4 b5 b6 b7) =
     (if (65 \<le> cp (Char b0 b1 b2 b3 b4 b5 b6 b7) \<and> cp (Char b0 b1 b2 b3 b4 b5 b6 b7) \<le> 90) \<or>
         (192 \<le> cp (Char b0 b1 b2 b3 b4 b5 b6 b7) \<and> cp (Char b0 b1 b2 b3 b4 b5 b6 b7) \<le> 222 \<and>
          cp (Char b0 b1 b2 b3 b4 b5 b6 b7) \<noteq> 215)
      then Char b0 b1 b2 b3 b4 True b6 b7 else Char b0 b1 b2 b3 b4 b5 b6 b7)"
  by (cases b0; cases b1; cases b2; cases b3; cases b4; cases b5; cases b6; cases b7;
      simp add: py_lower_def cp_def char_of_eq_iff)

lemmas ev_char = cp_def py_isspace_def py_isdigit_def py_isword_def py_lower_Char ci_eq_def

section \<open>Searching for a literal\<close>

lemma lit_ci_Nil: "lit_ci [] = Eps"
  by (simp add: lit_ci_def)

lemma lit_ci_Cons: "lit_ci (p # ps) = Seq (Atom (ci_eq p)) (lit_ci ps)"
  by (simp add: lit_ci_def)

lemma rmatch_lit_ci:
  "rmatch (lit_ci l) k (prev, s, caps) =
     (if ci_prefix l s then k (adv (length l) (prev, s, caps)) else None)"
proof (induction l arbitrary: prev s)
  case Nil
  then show ?case by (simp add: lit_ci_Nil rmatch_Eps)
next
  case (Cons p ps)
  show ?case
  proof (cases s)
    case Nil
    then show ?thesis by (simp add: lit_ci_Cons rmatch_Seq rmatch_Atom_Nil)
  next
    case (Cons c cs)
    then show ?thesis
      using Cons.IH[of "Some c" cs] by (simp add: lit_ci_Cons rmatch_Seq rmatch_Atom_Cons)
  qed
qed

lemma ci_prefix_length: "ci_prefix l s \<Longrightarrow> length l \<le> length s"
  by (induction l s rule: ci_prefix.induct) auto

lemma search_from_lit_ci:
  "search_from (lit_ci l) i prev s =
     (case find_ci l s of
        None \<Rightarrow> None
      | Some j \<Rightarrow> Some \<lparr>m_start = i + j, m_end = i + j + length l, m_groups = []\<rparr>)"
proof (induction s arbitrary: i prev)
  case Nil
  then show ?case
    using ci_prefix_length[of l "[]"] by (auto simp: rmatch_lit_ci adv_def)
next
  case (Cons c cs)
  show ?case
  proof (cases "ci_prefix l (c # cs)")
    case True
    then show ?thesis
      using ci_prefix_length[OF True] by (simp add: rmatch_lit_ci adv_def)
  next
    case False
    then show ?thesis
      using Cons.IH[of "Suc i" "Some c"] by (simp add: rmatch_lit_ci split: option.splits)
  qed
qed


lemma ci_prefix_iff:
  "ci_prefix l s \<longleftrightarrow> length l \<le> length s \<and> map py_lower (take (length l) s) = map py_lower l"
  by (induction l s rule: ci_prefix.induct) (auto simp: ci_eq_def)

lemma occurs_ci_prefix: "occurs_ci l s i \<longleftrightarrow> i \<le> length s \<and> ci_prefix l (drop i s)"
  by (auto simp: occurs_ci_def ci_prefix_iff)

lemma occurs_ci_Nil: "occurs_ci l [] i \<longleftrightarrow> i = 0 \<and> ci_prefix l []"
  by (auto simp: occurs_ci_prefix)

lemma occurs_ci_Cons:
  "occurs_ci l (c # cs) i \<longleftrightarrow> (i = 0 \<and> ci_prefix l (c # cs)) \<or> (\<exists>j. i = Suc j \<and> occurs_ci l cs j)"
  by (cases i) (auto simp: occurs_ci_prefix)

lemma find_ci_None: "find_ci l s = None \<longleftrightarrow> (\<forall>i. \<not> occurs_ci l s i)"
  by (induction s) (auto simp: occurs_ci_Nil occurs_ci_Cons)

lemma find_ci_Some:
  "find_ci l s = Some j \<longleftrightarrow> occurs_ci l s j \<and> (\<forall>i<j. \<not> occurs_ci l s i)"
proof (induction s arbitrary: j)
  case Nil
  then show ?case by (auto simp: occurs_ci_Nil)
next
  case (Cons c cs)
  show ?case
  proof (cases "ci_prefix l (c # cs)")
    case True
    then show ?thesis
      by (auto simp: occurs_ci_Cons)
  next
    case False
    show ?thesis
    proof (cases j)
      case 0
      with False show ?thesis by (auto simp: occurs_ci_Cons)
    next
      case (Suc j')
      have "(\<forall>i<Suc j'. \<not> occurs_ci l (c # cs) i) \<longleftrightarrow> (\<forall>i<j'. \<not> occurs_ci l cs i)"
        using False by (auto simp: occurs_ci_Cons less_Suc_eq_0_disj)
      with False Suc Cons.IH[of j'] show ?thesis
        by (auto simp: occurs_ci_Cons)
    qed
  qed
qed


lemma occurs_ci_bound: "occurs_ci l s j \<Longrightarrow> j \<le> length s"
  by (simp add: occurs_ci_def)

lemma find_ci_occurs: "find_ci l s = Some j \<Longrightarrow> occurs_ci l s j"
  by (simp add: find_ci_Some)

lemma find_ci_least: "occurs_ci l s i \<Longrightarrow> \<exists>j\<le>i. find_ci l s = Some j"
proof (cases "find_ci l s")
  case None
  assume "occurs_ci l s i"
  with None show ?thesis by (simp add: find_ci_None)
next
  case (Some j)
  assume "occurs_ci l s i"
  with Some have "j \<le> i" by (metis find_ci_Some not_le_imp_less)
  with Some show ?thesis by blast
qed

section \<open>The section slicer\<close>

lemma fold_end_step:
  "fold (end_step tail sp) ems e0 \<le> e0 \<and>
   (\<forall>em\<in>set ems. \<forall>j. occurs_ci em tail j \<longrightarrow> fold (end_step tail sp) ems e0 \<le> sp + j) \<and>
   (fold (end_step tail sp) ems e0 = e0 \<or>
    (\<exists>em\<in>set ems. \<exists>j. occurs_ci em tail j \<and> fold (end_step tail sp) ems e0 = sp + j))"
proof (induction ems arbitrary: e0)
  case Nil
  then show ?case by simp
next
  case (Cons em ems)
  let ?e1 = "end_step tail sp em e0"
  let ?r = "fold (end_step tail sp) ems ?e1"
  have e1: "?e1 \<le> e0" by (simp add: end_step_def split: option.splits)
  have e1': "\<forall>j. occurs_ci em tail j \<longrightarrow> ?e1 \<le> sp + j"
  proof (intro allI impI)
    fix j assume "occurs_ci em tail j"
    then obtain j' where "j' \<le> j" "find_ci em tail = Some j'" using find_ci_least by blast
    then show "?e1 \<le> sp + j" by (simp add: end_step_def)
  qed
  have e1'': "?e1 = e0 \<or> (\<exists>j. occurs_ci em tail j \<and> ?e1 = sp + j)"
    by (auto simp: end_step_def min_def find_ci_occurs split: option.splits)
  from Cons.IH[of ?e1] have 1: "?r \<le> ?e1"
    and 2: "\<forall>em\<in>set ems. \<forall>j. occurs_ci em tail j \<longrightarrow> ?r \<le> sp + j"
    and 3: "?r = ?e1 \<or> (\<exists>em\<in>set ems. \<exists>j. occurs_ci em tail j \<and> ?r = sp + j)"
    by blast+
  have "?r \<le> e0" using 1 e1 by simp
  moreover have "\<forall>em'\<in>set (em # ems). \<forall>j. occurs_ci em' tail j \<longrightarrow> ?r \<le> sp + j"
    using 1 2 e1' by (auto intro: order_trans)
  moreover have "?r = e0 \<or> (\<exists>em'\<in>set (em # ems). \<exists>j. occurs_ci em' tail j \<and> ?r = sp + j)"
    using 3 e1'' by auto
  ultimately show ?case by simp
qed

lemma fold_end_step_Min:
  assumes "sp \<le> length text"
  shows "fold (end_step (drop sp text) sp) ems (length text) = section_end text sp ems"
proof -
  let ?tail = "drop sp text"
  let ?S = "{sp + j | j em. em \<in> set ems \<and> occurs_ci em ?tail j}"
  let ?r = "fold (end_step ?tail sp) ems (length text)"
  have fin: "finite (insert (length text) ?S)"
  proof -
    have "?S \<subseteq> {..length text}"
      using assms by (auto dest!: occurs_ci_bound)
    then show ?thesis using finite_subset by blast
  qed
  from fold_end_step[of ?tail sp ems "length text"]
  have 1: "?r \<le> length text"
    and 2: "\<forall>em\<in>set ems. \<forall>j. occurs_ci em ?tail j \<longrightarrow> ?r \<le> sp + j"
    and 3: "?r = length text \<or> (\<exists>em\<in>set ems. \<exists>j. occurs_ci em ?tail j \<and> ?r = sp + j)"
    by blast+
  have "Min (insert (length text) ?S) = ?r"
  proof (rule Min_eqI[OF fin])
    fix y assume "y \<in> insert (length text) ?S"
    then show "?r \<le> y" using 1 2 by auto
  next
    show "?r \<in> insert (length text) ?S" using 3 by auto
  qed
  then show ?thesis by (simp add: section_end_def)
qed

lemma extract_section_find:
  "extract_section text sm ems =
     (case find_ci sm text of
        None \<Rightarrow> []
      | Some i \<Rightarrow>
          py_strip (take (fold (end_step (drop (i + length sm) text) (i + length sm)) ems (length text)
                          - (i + length sm))
                      (drop (i + length sm) text)))"
proof -
  have "(\<lambda>em end_pos. case re_search (lit_ci em) tail of None \<Rightarrow> end_pos
          | Some m \<Rightarrow> min end_pos (sp + m_start m)) = end_step tail sp" for tail sp
    by (intro ext) (simp add: end_step_def re_search_def search_from_lit_ci split: option.splits)
  then show ?thesis
    by (simp add: extract_section_def re_search_def search_from_lit_ci Let_def split: option.splits)
qed

text \<open>
  Claim C6: the section slicer returns the empty section when the start marker does not
  occur in the text (letter case apart); otherwise it returns the stripped text from just
  after the first occurrence of the start marker to the earliest occurrence of any end
  marker after it, or to the end of the text when no end marker occurs there.
\<close>

theorem extract_section_spec:
  "((\<forall>i. \<not> occurs_ci start_marker text i) \<longrightarrow> extract_section text start_marker end_markers = []) \<and>
   (\<forall>i. occurs_ci start_marker text i \<and> (\<forall>j<i. \<not> occurs_ci start_marker text j) \<longrightarrow>
      extract_section text start_marker end_markers =
        py_strip (take (section_end text (i + length start_marker) end_markers - (i + length start_marker))
                       (drop (i + length start_marker) text)))"
proof (intro conjI allI impI)
  assume "\<forall>i. \<not> occurs_ci start_marker text i"
  then have "find_ci start_marker text = None" by (simp add: find_ci_None)
  then show "extract_section text start_marker end_markers = []"
    by (simp add: extract_section_find)
next
  fix i
  assume "occurs_ci start_marker text i \<and> (\<forall>j<i. \<not> occurs_ci start_marker text j)"
  then have f: "find_ci start_marker text = Some i" by (simp add: find_ci_Some)
  have "i + length start_marker \<le> length text"
    using find_ci_occurs[OF f] by (simp add: occurs_ci_def)
  from fold_end_step_Min[OF this] f
  show "extract_section text start_marker end_markers =
        py_strip (take (section_end text (i + length start_marker) end_markers - (i + length start_marker))
                       (drop (i + length start_marker) text))"
    by (simp add: extract_section_find)
qed


theorem extract_section_spec_witness:
  "occurs_ci ''START:'' (''A: x'' @ [LF] @ ''START:'' @ [LF] @ ''foo'' @ [LF] @ ''END:'' @ [LF] @ ''bar'') 5 \<and>
   section_end (''A: x'' @ [LF] @ ''START:'' @ [LF] @ ''foo'' @ [LF] @ ''END:'' @ [LF] @ ''bar'') 11 [''END:''] = 16 \<and>
   extract_section (''A: x'' @ [LF] @ ''START:'' @ [LF] @ ''foo'' @ [LF] @ ''END:'' @ [LF] @ ''bar'')
     ''START:'' [''END:''] = ''foo''"
proof -
  let ?T = "''A: x'' @ [LF] @ ''START:'' @ [LF] @ ''foo'' @ [LF] @ ''END:'' @ [LF] @ ''bar''"
  have f: "find_ci ''START:'' ?T = Some 5"
    by (simp add: ev_char)
  have h1: "occurs_ci ''START:'' ?T 5 \<and> (\<forall>j<5. \<not> occurs_ci ''START:'' ?T j)"
    by (rule find_ci_Some[THEN iffD1, OF f])
  have "section_end ?T 11 [''END:''] = fold (end_step (drop 11 ?T) 11) [''END:''] (length ?T)"
    by (rule fold_end_step_Min[symmetric]) simp
  also have "\<dots> = 16"
    by (simp add: end_step_def ev_char)
  finally have h2: "section_end ?T 11 [''END:''] = 16" .
  from extract_section_spec[of "''START:''" ?T "[''END:'']"] h1
  have "extract_section ?T ''START:'' [''END:''] =
        py_strip (take (section_end ?T 11 [''END:''] - 11) (drop 11 ?T))"
    by simp
  also have "\<dots> = ''foo''"
    unfolding h2 by (simp add: py_strip_def strip_chars_def py_isspace_def cp_def)
  finally show ?thesis using h1 h2 by simp
qed

section \<open>Evaluation on concrete texts\<close>

lemmas ev_rx = lit_def lit_ci_def seqs_def star_def plus_def opt_def times_def one_of_def
  spaces_def digit_def letter_def range_rx_def extra_iters_def orelse_def at_word_boundary_def
  rmatch_app rep_greedy_unf rep_lazy_unf re_search_def match_group_def re_sub_def sub_from.simps
  re_findall_def findall_from.simps re_split0_def

lemmas ev_str = py_strip_def strip_chars_def replace_char_def truthy_def

lemmas ev_date = nat_of_digits_def digit_val_def is_leap_def days_in_month_def make_datetime_def
  month_names_def month_abbrs_def longest_first_def directive_rx_def index_of_def month_of_def
  strptime_def DATE_PATTERNS_def

section \<open>Groups are set when a pattern matches\<close>

lemma passesD:
  "passes n S m \<Longrightarrow> m k st = Some y \<Longrightarrow>
   \<exists>st'. k st' = Some y \<and> (has_group n st \<longrightarrow> has_group n st') \<and> (S \<longrightarrow> has_group n st')"
  unfolding passes_def by blast

lemma orelse_Some: "orelse a b = Some y \<Longrightarrow> a = Some y \<or> b = Some y"
  by (auto simp: orelse_def split: option.splits)

lemma rep_greedy_passes:
  assumes m: "passes n S m"
  shows "rep_greedy m lo nn k st = Some y \<Longrightarrow>
     \<exists>st'. k st' = Some y \<and> (has_group n st \<longrightarrow> has_group n st') \<and> (0 < lo \<and> S \<longrightarrow> has_group n st')"
proof (induction lo arbitrary: st y)
  case 0
  then show ?case
  proof (induction nn arbitrary: st y)
    case 0
    then have "k st = Some y" by simp
    then show ?case by blast
  next
    case (Suc nn)
    from Suc.prems have "m (rep_greedy m 0 nn k) st = Some y \<or> k st = Some y"
      by (auto dest: orelse_Some)
    then show ?case
    proof
      assume "m (rep_greedy m 0 nn k) st = Some y"
      from passesD[OF m this] obtain st1 where
        1: "rep_greedy m 0 nn k st1 = Some y" and 2: "has_group n st \<longrightarrow> has_group n st1"
        by blast
      from Suc.IH[OF 1] 2 show ?thesis by blast
    next
      assume "k st = Some y"
      then show ?thesis by blast
    qed
  qed
next
  case (Suc lo)
  from Suc.prems have "m (rep_greedy m lo nn k) st = Some y" by simp
  from passesD[OF m this] obtain st1 where
    1: "rep_greedy m lo nn k st1 = Some y" and 2: "has_group n st \<longrightarrow> has_group n st1"
    and 3: "S \<longrightarrow> has_group n st1"
    by blast
  from Suc.IH[OF 1] obtain st' where "k st' = Some y" "has_group n st1 \<longrightarrow> has_group n st'"
    by blast
  with 2 3 show ?case by blast
qed

lemma rep_lazy_passes:
  assumes m: "passes n S m"
  shows "rep_lazy m lo nn k st = Some y \<Longrightarrow>
     \<exists>st'. k st' = Some y \<and> (has_group n st \<longrightarrow> has_group n st') \<and> (0 < lo \<and> S \<longrightarrow> has_group n st')"
proof (induction lo arbitrary: st y)
  case 0
  then show ?case
  proof (induction nn arbitrary: st y)
    case 0
    then have "k st = Some y" by simp
    then show ?case by blast
  next
    case (Suc nn)
    from Suc.prems have "k st = Some y \<or> m (rep_lazy m 0 nn k) st = Some y"
      by (auto dest: orelse_Some)
    then show ?case
    proof
      assume "m (rep_lazy m 0 nn k) st = Some y"
      from passesD[OF m this] obtain st1 where
        1: "rep_lazy m 0 nn k st1 = Some y" and 2: "has_group n st \<longrightarrow> has_group n st1"
        by blast
      from Suc.IH[OF 1] 2 show ?thesis by blast
    next
      assume "k st = Some y"
      then show ?thesis by blast
    qed
  qed
next
  case (Suc lo)
  from Suc.prems have "m (rep_lazy m lo nn k) st = Some y" by simp
  from passesD[OF m this] obtain st1 where
    1: "rep_lazy m lo nn k st1 = Some y" and 2: "has_group n st \<longrightarrow> has_group n st1"
    and 3: "S \<longrightarrow> has_group n st1"
    by blast
  from Suc.IH[OF 1] obtain st' where "k st' = Some y" "has_group n st1 \<longrightarrow> has_group n st'"
    by blast
  with 2 3 show ?case by blast
qed

lemma rmatch_passes: "passes n (sets_group n r) (rmatch r)"
proof (induction r)
  case (Atom P)
  show ?case
    unfolding passes_def
  proof (intro allI impI)
    fix k st y assume a: "rmatch (Atom P) k st = Some y"
    obtain prev s caps where st: "st = (prev, s, caps)" by (cases st) auto
    show "\<exists>st'. k st' = Some y \<and> (has_group n st \<longrightarrow> has_group n st') \<and>
            (sets_group n (Atom P) \<longrightarrow> has_group n st')"
      using a st by (cases s) (auto simp: rmatch_app has_group_def split: if_splits)
  qed
next
  case Eps
  then show ?case by (auto simp: passes_def rmatch_app)
next
  case (Seq a b)
  show ?case
    unfolding passes_def
  proof (intro allI impI)
    fix k st y assume "rmatch (Seq a b) k st = Some y"
    then have "rmatch a (rmatch b k) st = Some y" by (simp add: rmatch_app)
    from passesD[OF Seq.IH(1) this] obtain st1 where
      1: "rmatch b k st1 = Some y" and 2: "has_group n st \<longrightarrow> has_group n st1"
      and 3: "sets_group n a \<longrightarrow> has_group n st1" by blast
    from passesD[OF Seq.IH(2) 1] obtain st' where
      "k st' = Some y" "has_group n st1 \<longrightarrow> has_group n st'" "sets_group n b \<longrightarrow> has_group n st'"
      by blast
    with 2 3 show "\<exists>st'. k st' = Some y \<and> (has_group n st \<longrightarrow> has_group n st') \<and>
            (sets_group n (Seq a b) \<longrightarrow> has_group n st')"
      unfolding sets_group.simps by blast
  qed
next
  case (Alt a b)
  show ?case
    unfolding passes_def
  proof (intro allI impI)
    fix k st y assume "rmatch (Alt a b) k st = Some y"
    then have "rmatch a k st = Some y \<or> rmatch b k st = Some y"
      by (auto simp: rmatch_app dest: orelse_Some)
    then show "\<exists>st'. k st' = Some y \<and> (has_group n st \<longrightarrow> has_group n st') \<and>
            (sets_group n (Alt a b) \<longrightarrow> has_group n st')"
      using passesD[OF Alt.IH(1)] passesD[OF Alt.IH(2)] by (metis sets_group.simps(4))
  qed
next
  case (Rep lo hi a)
  show ?case
    unfolding passes_def
  proof (intro allI impI)
    fix k st y assume a: "rmatch (Rep lo hi a) k st = Some y"
    obtain prev s caps where st: "st = (prev, s, caps)" by (cases st) auto
    from a st have "rep_greedy (rmatch a) lo (extra_iters lo hi s) k st = Some y"
      by (simp add: rmatch_app)
    from rep_greedy_passes[OF Rep.IH this]
    show "\<exists>st'. k st' = Some y \<and> (has_group n st \<longrightarrow> has_group n st') \<and>
            (sets_group n (Rep lo hi a) \<longrightarrow> has_group n st')"
      unfolding sets_group.simps by blast
  qed
next
  case (Lazy lo hi a)
  show ?case
    unfolding passes_def
  proof (intro allI impI)
    fix k st y assume a: "rmatch (Lazy lo hi a) k st = Some y"
    obtain prev s caps where st: "st = (prev, s, caps)" by (cases st) auto
    from a st have "rep_lazy (rmatch a) lo (extra_iters lo hi s) k st = Some y"
      by (simp add: rmatch_app)
    from rep_lazy_passes[OF Lazy.IH this]
    show "\<exists>st'. k st' = Some y \<and> (has_group n st \<longrightarrow> has_group n st') \<and>
            (sets_group n (Lazy lo hi a) \<longrightarrow> has_group n st')"
      unfolding sets_group.simps by blast
  qed
next
  case (Group m a)
  show ?case
    unfolding passes_def
  proof (intro allI impI)
    fix k st y assume a: "rmatch (Group m a) k st = Some y"
    obtain prev s caps where st: "st = (prev, s, caps)" by (cases st) auto
    let ?k = "\<lambda>(prev', s', caps'). k (prev', s', (m, take (length s - length s') s) # caps')"
    from a st have "rmatch a ?k st = Some y" by (simp add: rmatch_app)
    from passesD[OF Group.IH this] obtain st1 where
      1: "?k st1 = Some y" and 2: "has_group n st \<longrightarrow> has_group n st1"
      and 3: "sets_group n a \<longrightarrow> has_group n st1" by blast
    obtain p1 s1 c1 where st1: "st1 = (p1, s1, c1)" by (cases st1) auto
    let ?st' = "(p1, s1, (m, take (length s - length s1) s) # c1)"
    have "k ?st' = Some y" using 1 st1 by simp
    moreover have "has_group n st1 \<longrightarrow> has_group n ?st'" using st1 by (simp add: has_group_def)
    moreover have "m = n \<longrightarrow> has_group n ?st'" by (simp add: has_group_def)
    ultimately show "\<exists>st'. k st' = Some y \<and> (has_group n st \<longrightarrow> has_group n st') \<and>
            (sets_group n (Group m a) \<longrightarrow> has_group n st')"
      unfolding sets_group.simps using 2 3 by (intro exI[of _ ?st']) blast
  qed
next
  case (Look a)
  then show ?case by (auto simp: passes_def rmatch_app split: option.splits)
next
  case Bos
  then show ?case by (auto simp: passes_def rmatch_app split: if_splits)
next
  case Eos
  then show ?case by (auto simp: passes_def rmatch_app split: if_splits)
next
  case Eol
  then show ?case by (auto simp: passes_def rmatch_app split: if_splits)
next
  case WordB
  then show ?case by (auto simp: passes_def rmatch_app split: if_splits)
qed


lemma rmatch_Some_group:
  assumes "sets_group n r" "rmatch r Some st = Some (p', s', caps')"
  shows "map_of caps' n \<noteq> None"
proof -
  from passesD[OF rmatch_passes assms(2), of n] assms(1)
  have "has_group n (p', s', caps')" by auto
  then show ?thesis by (simp add: has_group_def map_of_eq_None_iff)
qed

lemma search_from_group:
  "sets_group n r \<Longrightarrow> search_from r i prev s = Some m \<Longrightarrow> match_group m n \<noteq> None"
proof (induction s arbitrary: i prev)
  case Nil
  then show ?case
    by (auto simp: match_group_def split: option.splits dest: rmatch_Some_group)
next
  case (Cons c cs)
  then show ?case
    by (auto simp: match_group_def split: option.splits dest: rmatch_Some_group)
qed

lemma first_group_total: "sets_group 1 r \<Longrightarrow> \<exists>v. first_group r text = Inr v"
  using search_from_group[of 1 r 0 None "text"]
  by (auto simp: first_group_def re_search_def split: option.splits)

lemma sets_group_seqs_Cons: "sets_group n (seqs (r # rs)) = (sets_group n r \<or> sets_group n (seqs rs))"
  by (simp add: seqs_def)

lemma sets_group_label_line_rx: "sets_group 1 (label_line_rx label)"
  by (simp add: label_line_rx_def sets_group_seqs_Cons plus_def)

lemma sets_group_block_rx: "sets_group 1 (block_rx label stops)"
  by (simp add: block_rx_def sets_group_seqs_Cons)

lemma sets_group_labeled_date_rx: "sets_group 1 (labeled_date_rx label)"
  by (simp add: labeled_date_rx_def sets_group_seqs_Cons)

lemma sets_group_charge_rx: "sets_group 1 (charge_rx label)"
  by (simp add: charge_rx_def sets_group_seqs_Cons)

lemma sets_group_min_monthly_rx: "sets_group 1 min_monthly_rx"
  by (simp add: min_monthly_rx_def sets_group_seqs_Cons)

lemma sets_group_money_rx: "sets_group 1 money_rx"
  by (simp add: money_rx_def)

section \<open>No exception escapes\<close>

lemma py_float_Some: "py_float (Some g) = Inl ValueError \<or> (\<exists>x. py_float (Some g) = Inr x)"
  by (simp add: py_float_def Let_def)

lemma money_to_float_total: "\<exists>v. money_to_float s = Inr v"
proof (cases "truthy s")
  case False
  then show ?thesis by (simp add: money_to_float_def)
next
  case True
  let ?s = "filter (\<lambda>c. c \<noteq> CHR '','') (the s)"
  show ?thesis
  proof (cases "re_search money_rx ?s")
    case None
    with True show ?thesis by (simp add: money_to_float_def)
  next
    case (Some m)
    then obtain g where "match_group m 1 = Some g"
      using search_from_group[OF sets_group_money_rx, of 0 None ?s m] by (auto simp: re_search_def)
    with True Some py_float_Some[of g] show ?thesis
      by (auto simp: money_to_float_def)
  qed
qed

lemma ebind_total:
  "\<exists>v. x = Inr v \<Longrightarrow> (\<And>v. \<exists>w. f v = Inr w) \<Longrightarrow> \<exists>w. ebind x f = Inr w"
  by (auto simp: ebind_def)

lemma extract_value_by_label_total: "\<exists>v. extract_value_by_label text label max_len = Inr v"
  unfolding extract_value_by_label_def
  by (rule ebind_total[OF first_group_total[OF sets_group_label_line_rx]]) (simp add: Let_def)

lemma extract_block_after_label_total: "\<exists>v. extract_block_after_label text label stops = Inr v"
  unfolding extract_block_after_label_def
  by (rule ebind_total[OF first_group_total[OF sets_group_block_rx]]) simp

lemma extract_labeled_date_total: "\<exists>v. extract_labeled_date fromiso text label = Inr v"
  unfolding extract_labeled_date_def
  by (rule ebind_total[OF first_group_total[OF sets_group_labeled_date_rx]]) simp

lemma extract_long_digit_run_total:
  "min_len \<le> max_len \<Longrightarrow> \<exists>v. extract_long_digit_run chunk min_len max_len = Inr v"
  by (simp add: extract_long_digit_run_def Let_def)

lemma pick_customer_name_loop_total: "\<exists>v. pick_customer_name_loop sec labels = Inr v"
proof (induction labels)
  case Nil
  then show ?case by simp
next
  case (Cons l ls)
  obtain v where "extract_value_by_label sec l 200 = Inr v"
    using extract_value_by_label_total by blast
  with Cons show ?case by (simp add: Let_def)
qed

lemma pick_customer_name_total: "\<exists>v. pick_customer_name sec = Inr v"
  unfolding pick_customer_name_def by (rule pick_customer_name_loop_total)

lemma por_total: "\<exists>v. a = Inr v \<Longrightarrow> \<exists>v. b = Inr v \<Longrightarrow> \<exists>v. por a b = Inr v"
  by (auto simp: por_def)

lemma por_date_total: "\<exists>v. a = Inr v \<Longrightarrow> \<exists>v. b = Inr v \<Longrightarrow> \<exists>v. por_date a b = Inr v"
  by (auto simp: por_date_def split: option.splits)

lemma charge_total: "\<exists>v. ebind (first_group (charge_rx label) text) money_to_float = Inr v"
  by (rule ebind_total[OF first_group_total[OF sets_group_charge_rx]]) (rule money_to_float_total)

lemma ebind_Inr: "ebind (Inr v) f = f v"
  by (simp add: ebind_def)

lemma first_charge_total: "\<exists>v. first_group (charge_rx label) text = Inr v"
  by (rule first_group_total[OF sets_group_charge_rx])

lemma plan_line_charge_total: "\<exists>v. plan_line_charge plan_line = Inr v"
proof -
  obtain a where a: "first_group (charge_rx ''Monthly Rate Plan Charge'') plan_line = Inr a"
    using first_charge_total by blast
  obtain b where b: "first_group (charge_rx ''Minimum Monthly Charge'') plan_line = Inr b"
    using first_charge_total by blast
  obtain fa where fa: "money_to_float a = Inr fa" using money_to_float_total by blast
  obtain fb where fb: "money_to_float b = Inr fb" using money_to_float_total by blast
  show ?thesis
    by (simp add: plan_line_charge_def a b fa fb ebind_Inr)
qed

lemma pick_plan_name_and_charge_total: "\<exists>v. pick_plan_name_and_charge rate_section full_text = Inr v"
proof -
  obtain pl where pl: "por (extract_value_by_label rate_section ''Plan'' 250)
                          (extract_value_by_label full_text ''Plan'' 250) = Inr pl"
    using por_total[OF extract_value_by_label_total extract_value_by_label_total] by blast
  obtain pc where pc: "plan_line_charge (the pl) = Inr pc"
    using plan_line_charge_total by blast
  show ?thesis
    by (simp add: pick_plan_name_and_charge_def pl pc ebind_Inr Let_def)
qed

lemma retry_plan_charge_total: "\<exists>v. retry_plan_charge text pc = Inr v"
proof -
  obtain b where b: "ebind (first_group (charge_rx ''Minimum Monthly Charge'') text) money_to_float = Inr b"
    using charge_total by blast
  obtain m where m: "ebind (first_group (charge_rx ''Monthly Rate Plan Charge'') text) money_to_float = Inr m"
    using charge_total by blast
  show ?thesis
    by (simp add: retry_plan_charge_def b m ebind_Inr)
qed

lemma min_monthly_total: "\<exists>v. ebind (first_group min_monthly_rx text) money_to_float = Inr v"
  by (rule ebind_total[OF first_group_total[OF sets_group_min_monthly_rx]]) (rule money_to_float_total)

lemma parse_contract_text_Inr: "\<exists>r. parse_contract_text fromiso full_text = Inr r"
proof -
  define doc where "doc = norm_text full_text"
  define info where "info = or_text (extract_section doc ''YOUR INFORMATION:''
            [''YOUR DEVICE DETAILS:'', ''YOUR DEVICE DETAILS'', ''YOUR RATE PLAN DETAILS:'',
             ''CRITICAL INFORMATION SUMMARY'']) doc"
  define device where "device = or_text (extract_section doc ''YOUR DEVICE DETAILS:''
            [''YOUR RATE PLAN DETAILS:'', ''YOUR RATE PLAN DETAILS'', ''MINIMUM MONTHLY CHARGE'',
             ''TOTAL MONTHLY CHARGE'']) doc"
  define rate where "rate = or_text (extract_section doc ''YOUR RATE PLAN DETAILS:''
            [''YOUR RATE PLAN ADD-ONS:'', ''YOUR PROMOTIONS:'', ''TOTAL MONTHLY CHARGE:'',
             ''ONE-TIME CHARGES:'']) doc"
  obtain v1 where v1: "pick_customer_name info = Inr v1"
    using pick_customer_name_total by blast
  obtain v2 where v2: "por (extract_value_by_label info ''Phone Number'' 200)
                           (extract_value_by_label info ''Phone'' 200) = Inr v2"
    using por_total[OF extract_value_by_label_total extract_value_by_label_total] by blast
  obtain v3 where v3: "extract_block_after_label info ''Address''
               [''Monthly Payment Method'', ''First Bill Date'', ''User Name'', ''Account Number'',
                ''Phone Number'', ''Default Voicemail Password'', ''Customer ID''] = Inr v3"
    using extract_block_after_label_total by blast
  obtain v4 where v4: "extract_value_by_label doc ''Order Number'' 200 = Inr v4"
    using extract_value_by_label_total by blast
  obtain v5 where v5: "extract_value_by_label doc ''Activity'' 200 = Inr v5"
    using extract_value_by_label_total by blast
  obtain v6 where v6: "por_date (extract_labeled_date fromiso device ''Start Date'')
                      (extract_labeled_date fromiso doc ''Start Date'') = Inr v6"
    using por_date_total[OF extract_labeled_date_total extract_labeled_date_total] by blast
  obtain v7 where v7: "por_date (extract_labeled_date fromiso device ''End Date'')
                      (extract_labeled_date fromiso doc ''End Date'') = Inr v7"
    using por_date_total[OF extract_labeled_date_total extract_labeled_date_total] by blast
  obtain pn pc where v8: "pick_plan_name_and_charge rate doc = Inr (pn, pc)"
    using pick_plan_name_and_charge_total by (metis surj_pair)
  obtain v9 where v9: "ebind (first_group min_monthly_rx doc) money_to_float = Inr v9"
    using min_monthly_total by blast
  obtain v10 where v10: "retry_plan_charge doc pc = Inr v10"
    using retry_plan_charge_total by blast
  obtain v11 where v11: "extract_value_by_label device ''Model'' 200 = Inr v11"
    using extract_value_by_label_total by blast
  obtain v12 where v12: "por (extract_value_by_label device ''IMEI/ESN/MEID'' 200)
                 (extract_value_by_label device ''IMEI'' 200) = Inr v12"
    using por_total[OF extract_value_by_label_total extract_value_by_label_total] by blast
  obtain v13 where v13: "extract_long_digit_run v12 10 20 = Inr v13"
    using extract_long_digit_run_total[of 10 20] by auto
  obtain v14 where v14: "por (extract_value_by_label device ''SIM Number'' 250)
                 (extract_value_by_label device ''SIM'' 250) = Inr v14"
    using por_total[OF extract_value_by_label_total extract_value_by_label_total] by blast
  obtain v15 where v15: "extract_long_digit_run v14 18 22 = Inr v15"
    using extract_long_digit_run_total[of 18 22] by auto
  show ?thesis
    unfolding parse_contract_text_def Let_def
    unfolding doc_def[symmetric] info_def[symmetric] device_def[symmetric] rate_def[symmetric]
    by (simp add: v1 v2 v3 v4 v5 v6 v7 v8 v9 v10 v11 v12 v13 v14 v15 ebind_Inr)
qed

text \<open>
  Claim C10: for every input string \<open>parse_contract_text\<close> returns a record and raises
  nothing, and so does each extractor on every text: a pattern that matches always sets
  the group that is read, and the \<open>ValueError\<close> of \<open>float\<close>, \<open>strptime\<close> and
  \<open>fromisoformat\<close> is caught where it arises and answered with the absent value.
\<close>

theorem parse_contract_text_total:
  "(\<exists>r. parse_contract_text fromiso full_text = Inr r) \<and>
   (\<exists>v. extract_value_by_label chunk label max_len = Inr v) \<and>
   (\<exists>v. extract_block_after_label chunk label stop_labels = Inr v) \<and>
   (\<exists>v. money_to_float s = Inr v) \<and>
   (\<exists>v. extract_labeled_date fromiso chunk label = Inr v) \<and>
   (\<exists>v. extract_long_digit_run c 10 20 = Inr v) \<and>
   (\<exists>v. extract_long_digit_run c 18 22 = Inr v) \<and>
   (\<exists>v. pick_customer_name chunk = Inr v) \<and>
   (\<exists>v. pick_plan_name_and_charge chunk full_text = Inr v)"
  using parse_contract_text_Inr extract_value_by_label_total extract_block_after_label_total
    money_to_float_total extract_labeled_date_total extract_long_digit_run_total [of 10 20]
    extract_long_digit_run_total [of 18 22] pick_customer_name_total
    pick_plan_name_and_charge_total
  by simp

theorem parse_contract_text_total_witness:
  "(\<exists>r. parse_contract_text no_iso ''Start Date: 2025-02-30'' = Inr r) \<and>
   extract_labeled_date no_iso ''Start Date: 2025-02-30'' ''Start Date'' = Inr None"
proof -
  have fg: "first_group (labeled_date_rx ''Start Date'') ''Start Date: 2025-02-30''
              = Inr (Some ''2025-02-30'')"
    by (simp add: first_group_def labeled_date_rx_def ev_rx ev_char ev_str
          del: rep_greedy.simps rep_lazy.simps)
  have cs: "collapse_spaces (Some ''2025-02-30'') = Some ''2025-02-30''"
    by (simp add: collapse_spaces_def ev_rx ev_char ev_str del: rep_greedy.simps rep_lazy.simps)
  have tf: "try_formats ''2025-02-30'' DATE_PATTERNS = None"
    by (simp add: ev_date ev_rx ev_char ev_str del: rep_greedy.simps rep_lazy.simps)
  have pd: "parse_date_str no_iso (Some ''2025-02-30'') = None"
    by (simp add: parse_date_str_def cs tf Let_def no_iso_def ev_rx ev_char ev_str
          del: rep_greedy.simps rep_lazy.simps)
  have "extract_labeled_date no_iso ''Start Date: 2025-02-30'' ''Start Date'' = Inr None"
    by (simp add: extract_labeled_date_def fg pd ebind_Inr)
  then show ?thesis
    using parse_contract_text_total [of no_iso "''Start Date: 2025-02-30''"] by simp
qed

section \<open>The date parser\<close>








section \<open>The fields of the record\<close>

lemma parse_contract_text_eq:
  assumes doc: "doc = norm_text full_text"
    and v1: "pick_customer_name (info_of doc) = Inr v1"
    and v2: "por (extract_value_by_label (info_of doc) ''Phone Number'' 200)
                 (extract_value_by_label (info_of doc) ''Phone'' 200) = Inr v2"
    and v3: "extract_block_after_label (info_of doc) ''Address''
               [''Monthly Payment Method'', ''First Bill Date'', ''User Name'', ''Account Number'',
                ''Phone Number'', ''Default Voicemail Password'', ''Customer ID''] = Inr v3"
    and v4: "extract_value_by_label doc ''Order Number'' 200 = Inr v4"
    and v5: "extract_value_by_label doc ''Activity'' 200 = Inr v5"
    and v6: "por_date (extract_labeled_date fromiso (device_of doc) ''Start Date'')
                      (extract_labeled_date fromiso doc ''Start Date'') = Inr v6"
    and v7: "por_date (extract_labeled_date fromiso (device_of doc) ''End Date'')
                      (extract_labeled_date fromiso doc ''End Date'') = Inr v7"
    and v8: "pick_plan_name_and_charge (rate_of doc) doc = Inr (pn, pc)"
    and v9: "ebind (first_group min_monthly_rx doc) money_to_float = Inr v9"
    and v10: "retry_plan_charge doc pc = Inr v10"
    and v11: "extract_value_by_label (device_of doc) ''Model'' 200 = Inr v11"
    and v12: "por (extract_value_by_label (device_of doc) ''IMEI/ESN/MEID'' 200)
                  (extract_value_by_label (device_of doc) ''IMEI'' 200) = Inr v12"
    and v13: "extract_long_digit_run v12 10 20 = Inr v13"
    and v14: "por (extract_value_by_label (device_of doc) ''SIM Number'' 250)
                  (extract_value_by_label (device_of doc) ''SIM'' 250) = Inr v14"
    and v15: "extract_long_digit_run v14 18 22 = Inr v15"
  shows "parse_contract_text fromiso full_text =
     Inr \<lparr>customer_name = v1,
          customer_phone = (if truthy v2 then extract_phone_from_chunk (the v2) else None),
          customer_address = v3, plan_name = pn, plan_charge = v10,
          minimum_monthly_plan = v9, contract_start_date = map_option dt_date v6,
          contract_end_date = map_option dt_date v7,
          order_number = cut_and_collapse order_split_rx v4,
          activity = cut_and_collapse activity_split_rx v5, down_payment = None,
          device_model = cut_and_collapse model_split_rx v11, device_imei = v13,
          serial_number = None, sim_number = v15, add_ons = []\<rparr>"
  unfolding parse_contract_text_def Let_def
  unfolding info_of_def[symmetric] device_of_def[symmetric] rate_of_def[symmetric] doc[symmetric]
  by (simp add: v1 v2 v3 v4 v5 v6 v7 v8 v9 v10 v11 v12 v13 v14 v15 ebind_Inr new_ContractExtraction_def)

lemma parse_contract_text_fields:
  assumes doc: "doc = norm_text full_text"
  shows "\<exists>r v2 pn pc.
     parse_contract_text fromiso full_text = Inr r \<and>
     por (extract_value_by_label (info_of doc) ''Phone Number'' 200)
         (extract_value_by_label (info_of doc) ''Phone'' 200) = Inr v2 \<and>
     customer_phone r = (if truthy v2 then extract_phone_from_chunk (the v2) else None) \<and>
     pick_plan_name_and_charge (rate_of doc) doc = Inr (pn, pc) \<and>
     plan_name r = pn \<and>
     retry_plan_charge doc pc = Inr (plan_charge r)"
proof -
  obtain v1 where v1: "pick_customer_name (info_of doc) = Inr v1"
    using pick_customer_name_total by blast
  obtain v2 where v2: "por (extract_value_by_label (info_of doc) ''Phone Number'' 200)
                           (extract_value_by_label (info_of doc) ''Phone'' 200) = Inr v2"
    using por_total[OF extract_value_by_label_total extract_value_by_label_total] by blast
  obtain v3 where v3: "extract_block_after_label (info_of doc) ''Address''
               [''Monthly Payment Method'', ''First Bill Date'', ''User Name'', ''Account Number'',
                ''Phone Number'', ''Default Voicemail Password'', ''Customer ID''] = Inr v3"
    using extract_block_after_label_total by blast
  obtain v4 where v4: "extract_value_by_label doc ''Order Number'' 200 = Inr v4"
    using extract_value_by_label_total by blast
  obtain v5 where v5: "extract_value_by_label doc ''Activity'' 200 = Inr v5"
    using extract_value_by_label_total by blast
  obtain v6 where v6: "por_date (extract_labeled_date fromiso (device_of doc) ''Start Date'')
                      (extract_labeled_date fromiso doc ''Start Date'') = Inr v6"
    using por_date_total[OF extract_labeled_date_total extract_labeled_date_total] by blast
  obtain v7 where v7: "por_date (extract_labeled_date fromiso (device_of doc) ''End Date'')
                      (extract_labeled_date fromiso doc ''End Date'') = Inr v7"
    using por_date_total[OF extract_labeled_date_total extract_labeled_date_total] by blast
  obtain pn pc where v8: "pick_plan_name_and_charge (rate_of doc) doc = Inr (pn, pc)"
    using pick_plan_name_and_charge_total by (metis surj_pair)
  obtain v9 where v9: "ebind (first_group min_monthly_rx doc) money_to_float = Inr v9"
    using min_monthly_total by blast
  obtain v10 where v10: "retry_plan_charge doc pc = Inr v10"
    using retry_plan_charge_total by blast
  obtain v11 where v11: "extract_value_by_label (device_of doc) ''Model'' 200 = Inr v11"
    using extract_value_by_label_total by blast
  obtain v12 where v12: "por (extract_value_by_label (device_of doc) ''IMEI/ESN/MEID'' 200)
                 (extract_value_by_label (device_of doc) ''IMEI'' 200) = Inr v12"
    using por_total[OF extract_value_by_label_total extract_value_by_label_total] by blast
  obtain v13 where v13: "extract_long_digit_run v12 10 20 = Inr v13"
    using extract_long_digit_run_total[of 10 20] by auto
  obtain v14 where v14: "por (extract_value_by_label (device_of doc) ''SIM Number'' 250)
                 (extract_value_by_label (device_of doc) ''SIM'' 250) = Inr v14"
    using por_total[OF extract_value_by_label_total extract_value_by_label_total] by blast
  obtain v15 where v15: "extract_long_digit_run v14 18 22 = Inr v15"
    using extract_long_digit_run_total[of 18 22] by auto
  show ?thesis
    using parse_contract_text_eq[OF doc v1 v2 v3 v4 v5 v6 v7 v8 v9 v10 v11 v12 v13 v14 v15] v2 v8 v10
    by auto
qed

lemma parse_ignores_raw_text:
  "norm_text a = norm_text b \<Longrightarrow> parse_contract_text fromiso a = parse_contract_text fromiso b"
  by (simp add: parse_contract_text_def new_ContractExtraction_def)


lemma norm_text_plain:
  "squeezed (\<lambda>c. c \<in> set [SP, TAB]) SP s \<Longrightarrow> squeezed (\<lambda>c. c = LF) LF s \<Longrightarrow>
   CR \<notin> set s \<Longrightarrow> py_strip s = s \<Longrightarrow> norm_text s = s"
  by (simp add: norm_text_squeeze replace_char_absent squeeze_fixed)

lemma extract_phone_merged:
  "extract_phone_from_chunk ''17806174431'' = Some ''1780617443''"
proof -
  have "re_search phone_rx ''17806174431''
          = Some \<lparr>m_start = 0, m_end = 10, m_groups = [(1, ''1780617443'')]\<rparr>"
    by (simp add: phone_rx_def ev_rx ev_char del: rep_greedy.simps rep_lazy.simps)
  then show ?thesis
    by (simp add: extract_phone_from_chunk_def digits_only_def match_group_def ev_rx ev_char
          del: rep_greedy.simps rep_lazy.simps)
qed

text \<open>
  Claim C4, at the input \<open>17806174431\<close> (a phone number with a merged leading 1): the
  pattern takes ten digits from the left, so the extractor returns the first ten digits
  of the run, not its last ten.
\<close>

theorem phone_keeps_first_ten:
  "extract_phone_from_chunk ''17806174431'' = Some ''1780617443'' \<and>
   ''1780617443'' \<noteq> drop (length ''17806174431'' - 10) ''17806174431''"
  using extract_phone_merged by simp

text \<open>
  Claim C1: the record has no field for the raw text; the \<open>raw_text\<close> keyword is dropped by
  the constructor, and two raw texts with the same normal form give the same record.
\<close>

theorem raw_text_not_kept:
  "norm_text a = norm_text b \<Longrightarrow> parse_contract_text fromiso a = parse_contract_text fromiso b"
  by (rule parse_ignores_raw_text)

theorem raw_text_not_kept_witness:
  "''x '' \<noteq> ''x'' \<and> parse_contract_text no_iso ''x '' = parse_contract_text no_iso ''x''"
proof -
  have "norm_text ''x '' = norm_text ''x''"
    by (simp add: norm_text_squeeze ev_str ev_char)
  from raw_text_not_kept [OF this] show ?thesis by simp
qed


lemma store_phone_norm:
  "norm_text ''Store Phone Number: (780) 617-4431'' = ''Store Phone Number: (780) 617-4431''"
  by (simp add: norm_text_squeeze ev_str ev_char)

lemma store_phone_section:
  "extract_section ''Store Phone Number: (780) 617-4431'' ''YOUR INFORMATION:''
     [''YOUR DEVICE DETAILS:'', ''YOUR DEVICE DETAILS'', ''YOUR RATE PLAN DETAILS:'',
      ''CRITICAL INFORMATION SUMMARY''] = []"
  by (simp add: extract_section_find ev_char)

lemma store_phone_label:
  "extract_value_by_label ''Store Phone Number: (780) 617-4431'' ''Phone Number'' 200
     = Inr (Some ''(780) 617-4431'')"
proof -
  have "first_group (label_line_rx ''Phone Number'') ''Store Phone Number: (780) 617-4431''
          = Inr (Some ''(780) 617-4431'')"
    by (simp add: first_group_def label_line_rx_def ev_rx ev_char ev_str
          del: rep_greedy.simps rep_lazy.simps)
  then show ?thesis
    by (simp add: extract_value_by_label_def ebind_Inr ev_str ev_char)
qed

lemma store_phone_digits:
  "extract_phone_from_chunk ''(780) 617-4431'' = Some ''7806174431''"
proof -
  have "re_search phone_rx ''(780) 617-4431''
          = Some \<lparr>m_start = 0, m_end = 14, m_groups = [(1, ''(780) 617-4431'')]\<rparr>"
    by (simp add: phone_rx_def ev_rx ev_char del: rep_greedy.simps rep_lazy.simps)
  then show ?thesis
    by (simp add: extract_phone_from_chunk_def digits_only_def match_group_def ev_rx ev_char
          del: rep_greedy.simps rep_lazy.simps)
qed

text \<open>
  Claim C2, at a text without the marker \<open>YOUR INFORMATION:\<close>: the customer-information
  section is empty, the label is looked up in the whole text, and the customer phone is
  the store's number.
\<close>

theorem customer_phone_from_whole_text:
  "extract_section (norm_text ''Store Phone Number: (780) 617-4431'') ''YOUR INFORMATION:''
     [''YOUR DEVICE DETAILS:'', ''YOUR DEVICE DETAILS'', ''YOUR RATE PLAN DETAILS:'',
      ''CRITICAL INFORMATION SUMMARY''] = [] \<and>
   (\<exists>r. parse_contract_text fromiso ''Store Phone Number: (780) 617-4431'' = Inr r \<and>
        customer_phone r = Some ''7806174431'')"
proof -
  let ?T = "''Store Phone Number: (780) 617-4431''"
  have info: "info_of ?T = ?T"
    by (simp add: info_of_def store_phone_section or_text_def)
  have p: "por (extract_value_by_label (info_of ?T) ''Phone Number'' 200)
               (extract_value_by_label (info_of ?T) ''Phone'' 200) = Inr (Some ''(780) 617-4431'')"
    by (simp only: info store_phone_label) (simp add: por_def truthy_def)
  from parse_contract_text_fields [OF store_phone_norm [symmetric], of fromiso]
  obtain r v2 where r: "parse_contract_text fromiso ?T = Inr r"
    and v2: "por (extract_value_by_label (info_of ?T) ''Phone Number'' 200)
                 (extract_value_by_label (info_of ?T) ''Phone'' 200) = Inr v2"
    and ph: "customer_phone r = (if truthy v2 then extract_phone_from_chunk (the v2) else None)"
    by blast
  from p v2 have "v2 = Some ''(780) 617-4431''" by simp
  with ph have "customer_phone r = Some ''7806174431''"
    by (simp add: truthy_def store_phone_digits)
  with r show ?thesis
    by (simp only: store_phone_norm store_phone_section) blast
qed


lemma two_charges_norm: "norm_text two_charges = two_charges"
  by (simp add: two_charges_def norm_text_squeeze ev_str ev_char)

lemma two_charges_rate: "rate_of two_charges = two_charges"
proof -
  have "extract_section two_charges ''YOUR RATE PLAN DETAILS:''
     [''YOUR RATE PLAN ADD-ONS:'', ''YOUR PROMOTIONS:'', ''TOTAL MONTHLY CHARGE:'',
      ''ONE-TIME CHARGES:''] = []"
    by (simp add: two_charges_def extract_section_find ev_char)
  then show ?thesis by (simp add: rate_of_def or_text_def)
qed

lemma two_charges_plan: "extract_value_by_label two_charges ''Plan'' 250 = Inr None"
proof -
  have "first_group (label_line_rx ''Plan'') two_charges = Inr None"
    by (simp add: two_charges_def first_group_def label_line_rx_def ev_rx ev_char ev_str
          del: rep_greedy.simps rep_lazy.simps)
  then show ?thesis
    by (simp add: extract_value_by_label_def ebind_Inr ev_str)
qed

lemma two_charges_pick: "\<exists>pn. pick_plan_name_and_charge (rate_of two_charges) two_charges = Inr (pn, None)"
  by (simp add: two_charges_rate pick_plan_name_and_charge_def two_charges_plan por_def ebind_Inr
        truthy_def Let_def)

lemma money_85: "money_to_float (Some ''85.00'') = Inr (Some 85)"
proof -
  have "re_search money_rx ''85.00'' = Some \<lparr>m_start = 0, m_end = 5, m_groups = [(1, ''85.00'')]\<rparr>"
    by (simp add: money_rx_def ev_rx ev_char del: rep_greedy.simps rep_lazy.simps)
  then show ?thesis
    by (simp add: money_to_float_def truthy_def match_group_def py_float_def ev_char
          nat_of_digits_def digit_val_def)
qed

lemma money_20: "money_to_float (Some ''20.00'') = Inr (Some 20)"
proof -
  have "re_search money_rx ''20.00'' = Some \<lparr>m_start = 0, m_end = 5, m_groups = [(1, ''20.00'')]\<rparr>"
    by (simp add: money_rx_def ev_rx ev_char del: rep_greedy.simps rep_lazy.simps)
  then show ?thesis
    by (simp add: money_to_float_def truthy_def match_group_def py_float_def ev_char
          nat_of_digits_def digit_val_def)
qed

lemma two_charges_min:
  "ebind (first_group (charge_rx ''Minimum Monthly Charge'') two_charges) money_to_float = Inr (Some 85)"
proof -
  have "first_group (charge_rx ''Minimum Monthly Charge'') two_charges = Inr (Some ''85.00'')"
    by (simp add: two_charges_def first_group_def charge_rx_def ev_rx ev_char ev_str
          del: rep_greedy.simps rep_lazy.simps)
  then show ?thesis by (simp add: ebind_Inr money_85)
qed

lemma two_charges_rate_plan:
  "ebind (first_group (charge_rx ''Monthly Rate Plan Charge'') two_charges) money_to_float = Inr (Some 20)"
proof -
  have "first_group (charge_rx ''Monthly Rate Plan Charge'') two_charges = Inr (Some ''20.00'')"
    by (simp add: two_charges_def first_group_def charge_rx_def ev_rx ev_char ev_str
          del: rep_greedy.simps rep_lazy.simps)
  then show ?thesis by (simp add: ebind_Inr money_20)
qed

text \<open>
  Claim C3 fails on \<open>two_charges\<close>: the Plan line yields no charge, the whole text has a
  Monthly Rate Plan Charge of 20 and a Minimum Monthly Charge of 85, and the plan charge
  is 85.
\<close>

theorem retry_order_counterexample:
  "map_sum id snd (pick_plan_name_and_charge (rate_of (norm_text two_charges)) (norm_text two_charges))
     = Inr None \<and>
   ebind (first_group (charge_rx ''Monthly Rate Plan Charge'') (norm_text two_charges)) money_to_float
     = Inr (Some 20) \<and>
   map_sum id plan_charge (parse_contract_text no_iso two_charges) = Inr (Some 85)"
proof -
  from parse_contract_text_fields [OF two_charges_norm [symmetric], of no_iso]
  obtain r pn pc where r: "parse_contract_text no_iso two_charges = Inr r"
    and pick: "pick_plan_name_and_charge (rate_of two_charges) two_charges = Inr (pn, pc)"
    and retry: "retry_plan_charge two_charges pc = Inr (plan_charge r)"
    by blast
  from pick two_charges_pick have pc: "pc = None" by auto
  have "retry_plan_charge two_charges None = Inr (Some 85)"
    by (simp add: retry_plan_charge_def two_charges_min ebind_Inr)
  with retry pc have "plan_charge r = Some 85" by simp
  with r pick pc two_charges_rate_plan show ?thesis
    by (simp add: two_charges_norm)
qed

text \<open>
  Claim C3 as amended: when the plan charge is still absent after the Plan line, the retry
  on the whole text takes the Minimum Monthly Charge amount first, and the Monthly Rate
  Plan Charge amount only when that is absent.
\<close>

theorem retry_order:
  assumes "parse_contract_text fromiso full_text = Inr r"
    and "pick_plan_name_and_charge (rate_of (norm_text full_text)) (norm_text full_text) = Inr (pn, None)"
    and "ebind (first_group (charge_rx ''Minimum Monthly Charge'') (norm_text full_text)) money_to_float
           = Inr byod_min"
    and "ebind (first_group (charge_rx ''Monthly Rate Plan Charge'') (norm_text full_text)) money_to_float
           = Inr mrc"
  shows "plan_charge r = (case byod_min of Some v \<Rightarrow> Some v | None \<Rightarrow> mrc)"
proof -
  from parse_contract_text_fields [OF refl, of fromiso full_text]
  obtain r' pn' pc where r': "parse_contract_text fromiso full_text = Inr r'"
    and pick: "pick_plan_name_and_charge (rate_of (norm_text full_text)) (norm_text full_text) = Inr (pn', pc)"
    and retry: "retry_plan_charge (norm_text full_text) pc = Inr (plan_charge r')"
    by blast
  from r' assms(1) have rr: "r' = r" by simp
  from pick assms(2) have pc: "pc = None" by simp
  have "retry_plan_charge (norm_text full_text) None =
          Inr (case byod_min of Some v \<Rightarrow> Some v | None \<Rightarrow> mrc)"
    by (simp add: retry_plan_charge_def assms(3) assms(4) ebind_Inr split: option.splits)
  with retry pc rr show ?thesis by simp
qed

theorem retry_order_witness:
  "map_sum id plan_charge (parse_contract_text no_iso two_charges) = Inr (Some 85)"
proof -
  obtain r where r: "parse_contract_text no_iso two_charges = Inr r"
    using parse_contract_text_Inr by blast
  obtain pn where pick:
    "pick_plan_name_and_charge (rate_of (norm_text two_charges)) (norm_text two_charges) = Inr (pn, None)"
    using two_charges_pick by (simp only: two_charges_norm) blast
  have a: "ebind (first_group (charge_rx ''Minimum Monthly Charge'') (norm_text two_charges)) money_to_float
           = Inr (Some 85)"
    by (simp only: two_charges_norm two_charges_min)
  have b: "ebind (first_group (charge_rx ''Monthly Rate Plan Charge'') (norm_text two_charges)) money_to_float
           = Inr (Some 20)"
    by (simp only: two_charges_norm two_charges_rate_plan)
  from retry_order [OF r pick a b] r show ?thesis by simp
qed

section \<open>Label-to-line extraction\<close>
















section \<open>The digit-run extractor\<close>





lemma adv_rest: "snd (adv j (prev, s, caps)) = (drop j s, caps)"
  by (simp add: adv_def)
















end
